theory Spec2Isabelle
  imports Complex_Main "HOL-Library.Sublist" "HOL-Library.Multiset" "HOL-Library.AList"
begin

section \<open>Data model (types.ts)\<close>

datatype CheckStatus = PASS | WARN | FAIL

datatype Category = LAYOUT | TYPOGRAPHY | IMAGERY | CONTENT | COLOR

text \<open>
  \<^verbatim>\<open>visualZone\<close> is declared as a union of ten string literals, but the value comes from
  the remote reply unchecked and \<^verbatim>\<open>getZoneStyles\<close> takes any string, so it is a string here.
\<close>

record CheckItem =
  category :: Category
  status :: CheckStatus
  title :: string
  description :: string
  location :: "string option"
  visualZone :: "string option"

record DocumentSpecs =
  pageCount :: int
  detectedDimensions :: string
  colorProfileEstimate :: string
  hasCropMarks :: bool

datatype Verdict = READY_FOR_PRINT | NEEDS_REVIEW | DO_NOT_PRINT

record PreflightReport =
  overallScore :: int
  summary :: string
  finalVerdict :: Verdict
  checks :: "CheckItem list"
  specs :: DocumentSpecs

section \<open>ReportDashboard: grouping and zone overlay\<close>

subsection \<open>checksByStatus\<close>

definition checksByStatus :: "PreflightReport \<Rightarrow> CheckStatus \<Rightarrow> CheckItem list" where
  "checksByStatus report s = filter (\<lambda>c. status c = s) (checks report)"

text \<open>The three sections of the sidebar, in the order they are rendered.\<close>

definition sections :: "PreflightReport \<Rightarrow> (CheckStatus \<times> CheckItem list) list" where
  "sections report =
     [(FAIL, checksByStatus report FAIL),
      (WARN, checksByStatus report WARN),
      (PASS, checksByStatus report PASS)]"

subsection \<open>getZoneStyles\<close>

definition base :: string where
  "base = ''absolute border-2 border-red-500 bg-red-500/20 transition-all duration-300 z-20 box-border shadow-[0_0_15px_rgba(239,68,68,0.5)]''"

definition getZoneStyles :: "string \<Rightarrow> string" where
  "getZoneStyles zone =
     (if zone = ''TOP_LEFT'' then base @ '' top-0 left-0 w-1/3 h-1/3 rounded-tl-lg''
      else if zone = ''TOP_CENTER'' then base @ '' top-0 left-1/3 w-1/3 h-1/3''
      else if zone = ''TOP_RIGHT'' then base @ '' top-0 right-0 w-1/3 h-1/3 rounded-tr-lg''
      else if zone = ''MIDDLE_LEFT'' then base @ '' top-1/3 left-0 w-1/3 h-1/3''
      else if zone = ''CENTER'' then base @ '' top-1/3 left-1/3 w-1/3 h-1/3''
      else if zone = ''MIDDLE_RIGHT'' then base @ '' top-1/3 right-0 w-1/3 h-1/3''
      else if zone = ''BOTTOM_LEFT'' then base @ '' bottom-0 left-0 w-1/3 h-1/3 rounded-bl-lg''
      else if zone = ''BOTTOM_CENTER'' then base @ '' bottom-0 left-1/3 w-1/3 h-1/3''
      else if zone = ''BOTTOM_RIGHT'' then base @ '' bottom-0 right-0 w-1/3 h-1/3 rounded-br-lg''
      else if zone = ''FULL_PAGE'' then base @ '' inset-0''
      else ''hidden'')"

text \<open>The nine grid zones and the ten values of the \<^verbatim>\<open>visualZone\<close> enumeration.\<close>

definition gridZones :: "string list" where
  "gridZones = [''TOP_LEFT'', ''TOP_CENTER'', ''TOP_RIGHT'',
                ''MIDDLE_LEFT'', ''CENTER'', ''MIDDLE_RIGHT'',
                ''BOTTOM_LEFT'', ''BOTTOM_CENTER'', ''BOTTOM_RIGHT'']"

definition visualZones :: "string list" where
  "visualZones = gridZones @ [''FULL_PAGE'']"

subsection \<open>What the class string lays out\<close>

text \<open>
  \<^verbatim>\<open>getZoneStyles\<close> returns a list of utility classes, not a rectangle. The rectangle is
  what the stylesheet makes of them on the overlay layer, which covers the page canvas
  exactly (\<^verbatim>\<open>absolute inset-0\<close>). Lengths are fractions of the page: \<open>0\<close> is the top or
  left edge, \<open>1\<close> the bottom or right edge. Only the utilities that position or size the
  box, or remove it, produce a declaration; colours, borders and transitions produce none.
\<close>

datatype css_decl =
  Top rat | Bottom rat | Left rat | Right rat | Width rat | Height rat | DisplayNone

definition utility :: "string \<Rightarrow> css_decl list" where
  "utility c =
     (if c = ''top-0'' then [Top 0]
      else if c = ''top-1/3'' then [Top (1/3)]
      else if c = ''bottom-0'' then [Bottom 0]
      else if c = ''left-0'' then [Left 0]
      else if c = ''left-1/3'' then [Left (1/3)]
      else if c = ''right-0'' then [Right 0]
      else if c = ''w-1/3'' then [Width (1/3)]
      else if c = ''h-1/3'' then [Height (1/3)]
      else if c = ''inset-0'' then [Top 0, Right 0, Bottom 0, Left 0]
      else if c = ''hidden'' then [DisplayNone]
      else [])"

text \<open>A class attribute is a list of names separated by spaces.\<close>

fun classNames :: "string \<Rightarrow> string \<Rightarrow> string list" where
  "classNames acc [] = (if acc = [] then [] else [acc])"
| "classNames acc (c # cs) =
     (if c = CHR '' '' then (if acc = [] then classNames [] cs else acc # classNames [] cs)
      else classNames (acc @ [c]) cs)"

definition declarations :: "string \<Rightarrow> css_decl list" where
  "declarations cls = concat (map utility (classNames [] cls))"

record rect =
  rx :: rat
  ry :: rat
  rw :: rat
  rh :: rat

fun topOf :: "css_decl list \<Rightarrow> rat option" where
  "topOf [] = None"
| "topOf (Top v # ds) = Some v"
| "topOf (d # ds) = topOf ds"

fun bottomOf :: "css_decl list \<Rightarrow> rat option" where
  "bottomOf [] = None"
| "bottomOf (Bottom v # ds) = Some v"
| "bottomOf (d # ds) = bottomOf ds"

fun leftOf :: "css_decl list \<Rightarrow> rat option" where
  "leftOf [] = None"
| "leftOf (Left v # ds) = Some v"
| "leftOf (d # ds) = leftOf ds"

fun rightOf :: "css_decl list \<Rightarrow> rat option" where
  "rightOf [] = None"
| "rightOf (Right v # ds) = Some v"
| "rightOf (d # ds) = rightOf ds"

fun widthOf :: "css_decl list \<Rightarrow> rat option" where
  "widthOf [] = None"
| "widthOf (Width v # ds) = Some v"
| "widthOf (d # ds) = widthOf ds"

fun heightOf :: "css_decl list \<Rightarrow> rat option" where
  "heightOf [] = None"
| "heightOf (Height v # ds) = Some v"
| "heightOf (d # ds) = heightOf ds"

text \<open>
  One axis of an absolutely positioned box: the offset from the start edge and the
  extent, from the start inset, the end inset and the size where they are given. With
  neither a size nor both insets the extent depends on the content, and with no inset
  the offset depends on the static position: the classes alone do not determine a
  rectangle then.
\<close>

fun axis :: "rat option \<Rightarrow> rat option \<Rightarrow> rat option \<Rightarrow> (rat \<times> rat) option" where
  "axis (Some s) _ (Some z) = Some (s, z)"
| "axis (Some s) (Some e) None = Some (s, 1 - s - e)"
| "axis None (Some e) (Some z) = Some (1 - e - z, z)"
| "axis _ _ _ = None"

definition layout :: "css_decl list \<Rightarrow> rect option" where
  "layout ds =
     (if DisplayNone \<in> set ds then None
      else case (axis (leftOf ds) (rightOf ds) (widthOf ds),
                 axis (topOf ds) (bottomOf ds) (heightOf ds)) of
             (Some (x, w), Some (y, h)) \<Rightarrow> Some \<lparr>rx = x, ry = y, rw = w, rh = h\<rparr>
           | _ \<Rightarrow> None)"

definition zoneRect :: "string \<Rightarrow> rect option" where
  "zoneRect zone = layout (declarations (getZoneStyles zone))"

text \<open>The cell in row \<open>r\<close> and column \<open>c\<close> of the 3x3 grid, rows and columns from 0.\<close>

definition cell :: "nat \<Rightarrow> nat \<Rightarrow> rect" where
  "cell r c = \<lparr>rx = of_nat c / 3, ry = of_nat r / 3, rw = 1 / 3, rh = 1 / 3\<rparr>"

definition fullPage :: rect where
  "fullPage = \<lparr>rx = 0, ry = 0, rw = 1, rh = 1\<rparr>"

definition insidePage :: "rect \<Rightarrow> bool" where
  "insidePage r \<longleftrightarrow> 0 \<le> rx r \<and> 0 \<le> ry r \<and> 0 < rw r \<and> 0 < rh r \<and> rx r + rw r \<le> 1 \<and> ry r + rh r \<le> 1"

text \<open>Two rectangles overlap when their interiors meet; sharing an edge is not overlap.\<close>

definition overlap :: "rect \<Rightarrow> rect \<Rightarrow> bool" where
  "overlap a b \<longleftrightarrow>
     rx a < rx b + rw b \<and> rx b < rx a + rw a \<and> ry a < ry b + rh b \<and> ry b < ry a + rh a"

subsection \<open>Hovering a check and the overlay\<close>

text \<open>
  The interaction state of the dashboard, and whether the preview document has loaded
  (\<^verbatim>\<open>pdfDoc\<close> is not null).
\<close>

record Dashboard =
  expandedSections :: "CheckStatus \<Rightarrow> bool"
  activeZone :: "string option"
  activeItemIndex :: "string option"
  pdfDoc :: bool

definition initialDashboard :: Dashboard where
  "initialDashboard =
     \<lparr>expandedSections = (\<lambda>s. s \<noteq> PASS), activeZone = None, activeItemIndex = None,
      pdfDoc = False\<rparr>"

definition toggleSection :: "CheckStatus \<Rightarrow> Dashboard \<Rightarrow> Dashboard" where
  "toggleSection s d = d\<lparr>expandedSections := (expandedSections d)(s := \<not> expandedSections d s)\<rparr>"


fun decimal :: "nat \<Rightarrow> string" where
  "decimal n = (if n < 10 then [char_of (48 + n)] else decimal (n div 10) @ [char_of (48 + n mod 10)])"

declare decimal.simps [simp del]

definition uniqueId :: "string \<Rightarrow> nat \<Rightarrow> string" where
  "uniqueId sectionKey index = sectionKey @ ''-'' @ decimal index"

text \<open>
  \<^verbatim>\<open>item.visualZone || 'FULL_PAGE'\<close>: an absent zone and the empty string are falsy and give
  \<^verbatim>\<open>'FULL_PAGE'\<close>.
\<close>

definition hoverZone :: "CheckItem \<Rightarrow> string" where
  "hoverZone item =
     (case visualZone item of
        None \<Rightarrow> ''FULL_PAGE''
      | Some z \<Rightarrow> if z = [] then ''FULL_PAGE'' else z)"

definition onMouseEnter :: "CheckItem \<Rightarrow> nat \<Rightarrow> string \<Rightarrow> Dashboard \<Rightarrow> Dashboard" where
  "onMouseEnter item index sectionKey d =
     d\<lparr>activeZone := Some (hoverZone item), activeItemIndex := Some (uniqueId sectionKey index)\<rparr>"

definition onMouseLeave :: "Dashboard \<Rightarrow> Dashboard" where
  "onMouseLeave d = d\<lparr>activeZone := None, activeItemIndex := None\<rparr>"

text \<open>
  The overlay layer is rendered when the document has loaded, and the box inside it when
  \<^verbatim>\<open>activeZone\<close> is truthy; its classes are those of \<^verbatim>\<open>getZoneStyles\<close> and \<^verbatim>\<open>animate-pulse\<close>.
  The result is the rectangle shown, if any.
\<close>

definition overlay :: "Dashboard \<Rightarrow> rect option" where
  "overlay d =
     (if pdfDoc d then
        (case activeZone d of
           None \<Rightarrow> None
         | Some z \<Rightarrow>
             if z = [] then None
             else layout (declarations (getZoneStyles z @ '' animate-pulse'')))
      else None)"

section \<open>JSON values\<close>

text \<open>
  What \<^verbatim>\<open>JSON.parse\<close> returns: a JavaScript value built from objects, arrays, strings,
  numbers, booleans and null. An object is the list of its properties in insertion order,
  each key once.
\<close>

datatype json =
  JNull | JBool bool | JNumber rat | JString string | JArray "json list" | JObject "(string \<times> json) list"

text \<open>Thrown values: an \<^verbatim>\<open>Error\<close> with its message, or the parser's \<^verbatim>\<open>SyntaxError\<close>.\<close>

datatype js_error = Error string | SyntaxError string

fun message :: "js_error \<Rightarrow> string" where
  "message (Error m) = m"
| "message (SyntaxError m) = m"

definition field :: "string \<Rightarrow> json \<Rightarrow> json option" where
  "field k j = (case j of JObject fs \<Rightarrow> map_of fs k | _ \<Rightarrow> None)"

subsection \<open>A parser for the integer fragment of JSON\<close>

text \<open>
  \<^verbatim>\<open>JSON.parse\<close> belongs to the runtime, not to the repository, so \<^verbatim>\<open>analyzePdf\<close> below
  takes the parser as a parameter. The parser here stands for \<^verbatim>\<open>JSON.parse\<close> where a
  statement needs one. A character is a code unit below 256. The parser reads JSON whose
  numerals are integers that a JavaScript number holds exactly, and whose escapes give
  such characters; a numeral with a fraction or an exponent, an integer beyond
  \<open>2^53 - 1\<close> and an escape of a higher code unit are outside the fragment and are reported
  as errors. A repeated key keeps its first position and takes the last value, as in
  JavaScript. The first argument of \<open>parse_value\<close> bounds the nesting; the length of the
  text is always enough.
\<close>

definition is_ws :: "char \<Rightarrow> bool" where
  "is_ws c \<longleftrightarrow> c = CHR '' '' \<or> c = CHR 0x09 \<or> c = CHR 0x0A \<or> c = CHR 0x0D"

definition skip_ws :: "string \<Rightarrow> string" where
  "skip_ws = dropWhile is_ws"

definition is_digit :: "char \<Rightarrow> bool" where
  "is_digit c \<longleftrightarrow> 48 \<le> (of_char c :: nat) \<and> (of_char c :: nat) \<le> 57"

definition digit_value :: "char \<Rightarrow> int" where
  "digit_value c = int (of_char c) - 48"

definition unescape :: "char \<Rightarrow> char option" where
  "unescape e =
     (if e = CHR 0x22 then Some (CHR 0x22)
      else if e = CHR 0x5C then Some (CHR 0x5C)
      else if e = CHR ''/'' then Some (CHR ''/'')
      else if e = CHR ''b'' then Some (CHR 0x08)
      else if e = CHR ''f'' then Some (CHR 0x0C)
      else if e = CHR ''n'' then Some (CHR 0x0A)
      else if e = CHR ''r'' then Some (CHR 0x0D)
      else if e = CHR ''t'' then Some (CHR 0x09)
      else None)"

definition hexValue :: "char \<Rightarrow> nat option" where
  "hexValue c =
     (let n = (of_char c :: nat)
      in if 48 \<le> n \<and> n \<le> 57 then Some (n - 48)
         else if 97 \<le> n \<and> n \<le> 102 then Some (n - 87)
         else if 65 \<le> n \<and> n \<le> 70 then Some (n - 55)
         else None)"

definition unicode :: "char \<Rightarrow> char \<Rightarrow> char \<Rightarrow> char \<Rightarrow> char option" where
  "unicode h1 h2 h3 h4 =
     (case (hexValue h1, hexValue h2, hexValue h3, hexValue h4) of
        (Some a, Some b, Some c, Some d) \<Rightarrow>
          (let n = ((a * 16 + b) * 16 + c) * 16 + d
           in if n < 256 then Some (char_of n) else None)
      | _ \<Rightarrow> None)"

fun parse_chars :: "string \<Rightarrow> string \<Rightarrow> (string \<times> string) option" where
  "parse_chars acc [] = None"
| "parse_chars acc (c # cs) =
     (if c = CHR 0x22 then Some (acc, cs)
      else if c = CHR 0x5C then
        (case cs of
           [] \<Rightarrow> None
         | e # r \<Rightarrow>
             if e = CHR ''u'' then
               (case r of
                  h1 # h2 # h3 # h4 # r' \<Rightarrow>
                    (case unicode h1 h2 h3 h4 of
                       None \<Rightarrow> None
                     | Some d \<Rightarrow> parse_chars (acc @ [d]) r')
                | _ \<Rightarrow> None)
             else (case unescape e of None \<Rightarrow> None | Some d \<Rightarrow> parse_chars (acc @ [d]) r))
      else if (of_char c :: nat) < 32 then None
      else parse_chars (acc @ [c]) cs)"

text \<open>The integers that a JavaScript number holds exactly.\<close>

definition safeInteger :: "int \<Rightarrow> bool" where
  "safeInteger n \<longleftrightarrow> \<bar>n\<bar> \<le> 9007199254740991"

definition parse_number :: "string \<Rightarrow> (json \<times> string) option" where
  "parse_number s =
     (let (neg, t) = (case s of c # cs \<Rightarrow> if c = CHR ''-'' then (True, cs) else (False, s) | [] \<Rightarrow> (False, s));
          ds = takeWhile is_digit t;
          r = dropWhile is_digit t;
          v = foldl (\<lambda>a c. 10 * a + digit_value c) 0 ds
      in if ds = [] \<or> (1 < length ds \<and> hd ds = CHR ''0'') then None
         else if r \<noteq> [] \<and> (hd r = CHR ''.'' \<or> hd r = CHR ''e'' \<or> hd r = CHR ''E'') then None
         else if \<not> safeInteger v then None
         else Some (JNumber (of_int (if neg then - v else v)), r))"

fun parse_value :: "nat \<Rightarrow> string \<Rightarrow> (json \<times> string) option"
and parse_elements :: "nat \<Rightarrow> json list \<Rightarrow> string \<Rightarrow> (json list \<times> string) option"
and parse_members :: "nat \<Rightarrow> (string \<times> json) list \<Rightarrow> string \<Rightarrow> ((string \<times> json) list \<times> string) option"
where
  "parse_value 0 s = None"
| "parse_value (Suc n) s =
     (case s of
        [] \<Rightarrow> None
      | c # cs \<Rightarrow>
          if c = CHR ''{'' then
            (case skip_ws cs of
               [] \<Rightarrow> None
             | d # ds \<Rightarrow>
                 if d = CHR ''}'' then Some (JObject [], ds)
                 else map_option (\<lambda>(ms, r). (JObject ms, r)) (parse_members n [] (d # ds)))
          else if c = CHR ''['' then
            (case skip_ws cs of
               [] \<Rightarrow> None
             | d # ds \<Rightarrow>
                 if d = CHR '']'' then Some (JArray [], ds)
                 else map_option (\<lambda>(vs, r). (JArray vs, r)) (parse_elements n [] (d # ds)))
          else if c = CHR 0x22 then map_option (\<lambda>(str, r). (JString str, r)) (parse_chars [] cs)
          else if take 4 s = ''true'' then Some (JBool True, drop 4 s)
          else if take 5 s = ''false'' then Some (JBool False, drop 5 s)
          else if take 4 s = ''null'' then Some (JNull, drop 4 s)
          else parse_number s)"
| "parse_elements 0 acc s = None"
| "parse_elements (Suc n) acc s =
     (case parse_value n (skip_ws s) of
        None \<Rightarrow> None
      | Some (v, r) \<Rightarrow>
          (case skip_ws r of
             [] \<Rightarrow> None
           | c # cs \<Rightarrow>
               if c = CHR '','' then parse_elements n (acc @ [v]) cs
               else if c = CHR '']'' then Some (acc @ [v], cs)
               else None))"
| "parse_members 0 acc s = None"
| "parse_members (Suc n) acc s =
     (case skip_ws s of
        [] \<Rightarrow> None
      | q # s1 \<Rightarrow>
          if q \<noteq> CHR 0x22 then None
          else
            (case parse_chars [] s1 of
               None \<Rightarrow> None
             | Some (k, s2) \<Rightarrow>
                 (case skip_ws s2 of
                    [] \<Rightarrow> None
                  | colon # s3 \<Rightarrow>
                      if colon \<noteq> CHR '':'' then None
                      else
                        (case parse_value n (skip_ws s3) of
                           None \<Rightarrow> None
                         | Some (v, r) \<Rightarrow>
                             (case skip_ws r of
                                [] \<Rightarrow> None
                              | c # cs \<Rightarrow>
                                  if c = CHR '','' then parse_members n (AList.update k v acc) cs
                                  else if c = CHR ''}'' then Some (AList.update k v acc, cs)
                                  else None)))))"

definition JSON_parse :: "string \<Rightarrow> js_error + json" where
  "JSON_parse s =
     (case parse_value (length s) (skip_ws s) of
        None \<Rightarrow> Inl (SyntaxError ''JSON.parse'')
      | Some (j, r) \<Rightarrow> if skip_ws r = [] then Inr j else Inl (SyntaxError ''JSON.parse''))"

section \<open>The remote service (geminiService.ts)\<close>

text \<open>
  The reply of \<^verbatim>\<open>generateContent\<close>, as far as the adapter reads it: the text of the reply
  and \<^verbatim>\<open>candidates?.[0]?.content?.parts\<close>. Every link of that chain may be missing.
\<close>

record Blob =
  data :: string
  mimeType :: string

record Part =
  part_text :: "string option"
  inlineData :: "Blob option"

record Content =
  parts :: "Part list option"

record Candidate =
  content :: "Content option"

record Response =
  response_text :: "string option"
  candidates :: "Candidate list option"

datatype ImageSize = Size1K | Size2K | Size4K

text \<open>
  The three requests, by what varies in them; the model names, the instruction text,
  the response schema and the temperature are constants of the source. The service is a
  function from the request to what the awaited call does: it throws, or it returns a reply.
\<close>

datatype Request =
  AnalyzeRequest string
| GenerateRequest string ImageSize
| EditRequest string string string

type_synonym Service = "Request \<Rightarrow> js_error + Response"

subsection \<open>reportSchema\<close>




text \<open>The required top-level fields of a report, and whether a value lacks one of them.\<close>

definition requiredFields :: "string list" where
  "requiredFields = [''overallScore'', ''summary'', ''finalVerdict'', ''specs'', ''checks'']"

definition missingRequired :: "json \<Rightarrow> bool" where
  "missingRequired j = list_ex (\<lambda>k. field k j = None) requiredFields"

subsection \<open>analyzePdf\<close>

text \<open>
  The body of the \<^verbatim>\<open>try\<close> block first, then the function with its \<^verbatim>\<open>catch\<close>, which logs the
  error and throws a new one with a fixed message. The value returned is what the parser
  returns: the cast to \<^verbatim>\<open>PreflightReport\<close> does nothing at run time.
\<close>

definition analyzePdf_try :: "(string \<Rightarrow> js_error + json) \<Rightarrow> Service \<Rightarrow> string \<Rightarrow> js_error + json" where
  "analyzePdf_try parse ai base64Pdf =
     (case ai (AnalyzeRequest base64Pdf) of
        Inl e \<Rightarrow> Inl e
      | Inr response \<Rightarrow>
          (case response_text response of
             None \<Rightarrow> Inl (Error ''No response text received from Gemini.'')
           | Some t \<Rightarrow>
               if t = [] then Inl (Error ''No response text received from Gemini.'')
               else parse t))"

definition analyzePdf :: "(string \<Rightarrow> js_error + json) \<Rightarrow> Service \<Rightarrow> string \<Rightarrow> js_error + json" where
  "analyzePdf parse ai base64Pdf =
     (case analyzePdf_try parse ai base64Pdf of
        Inl error \<Rightarrow> Inl (Error ''Failed to analyze the PDF. Please try again.'')
      | Inr report \<Rightarrow> Inr report)"

subsection \<open>generateImage and editImage\<close>

definition replyParts :: "Response \<Rightarrow> Part list option" where
  "replyParts response =
     (case candidates response of
        None \<Rightarrow> None
      | Some [] \<Rightarrow> None
      | Some (c # cs) \<Rightarrow> (case content c of None \<Rightarrow> None | Some ct \<Rightarrow> parts ct))"

text \<open>The \<^verbatim>\<open>for\<close> loop over the parts: it returns at the first part with inline data.\<close>

fun firstImage :: "Part list \<Rightarrow> string option" where
  "firstImage [] = None"
| "firstImage (part # rest) =
     (case inlineData part of
        Some b \<Rightarrow> Some (''data:image/png;base64,'' @ data b)
      | None \<Rightarrow> firstImage rest)"

definition generateImage_try :: "Service \<Rightarrow> string \<Rightarrow> ImageSize \<Rightarrow> js_error + string" where
  "generateImage_try ai prompt size' =
     (case ai (GenerateRequest prompt size') of
        Inl e \<Rightarrow> Inl e
      | Inr response \<Rightarrow>
          (case replyParts response of
             None \<Rightarrow> Inl (Error ''No image generated in response.'')
           | Some ps \<Rightarrow>
               (case firstImage ps of
                  Some uri \<Rightarrow> Inr uri
                | None \<Rightarrow> Inl (Error ''No image generated in response.''))))"

definition generateImage :: "Service \<Rightarrow> string \<Rightarrow> ImageSize \<Rightarrow> js_error + string" where
  "generateImage ai prompt size' =
     (case generateImage_try ai prompt size' of
        Inl error \<Rightarrow> Inl error
      | Inr uri \<Rightarrow> Inr uri)"

definition editImage_try :: "Service \<Rightarrow> string \<Rightarrow> string \<Rightarrow> string \<Rightarrow> js_error + string" where
  "editImage_try ai base64Image mime prompt =
     (case ai (EditRequest base64Image mime prompt) of
        Inl e \<Rightarrow> Inl e
      | Inr response \<Rightarrow>
          (case replyParts response of
             None \<Rightarrow> Inl (Error ''No edited image generated in response.'')
           | Some ps \<Rightarrow>
               (case firstImage ps of
                  Some uri \<Rightarrow> Inr uri
                | None \<Rightarrow> Inl (Error ''No edited image generated in response.''))))"

definition editImage :: "Service \<Rightarrow> string \<Rightarrow> string \<Rightarrow> string \<Rightarrow> js_error + string" where
  "editImage ai base64Image mime prompt =
     (case editImage_try ai base64Image mime prompt of
        Inl error \<Rightarrow> Inl error
      | Inr uri \<Rightarrow> Inr uri)"

text \<open>The inline blobs of a list of parts and of a reply, in part order.\<close>

definition partBlobs :: "Part list \<Rightarrow> Blob list" where
  "partBlobs ps = concat (map (\<lambda>p. case inlineData p of None \<Rightarrow> [] | Some b \<Rightarrow> [b]) ps)"

definition inlineBlobs :: "Response \<Rightarrow> Blob list" where
  "inlineBlobs response = (case replyParts response of None \<Rightarrow> [] | Some ps \<Rightarrow> partBlobs ps)"

subsection \<open>The serializer\<close>

text \<open>
  \<^verbatim>\<open>JSON.stringify\<close> without indentation, on the values of the fragment: an integer is written
  in decimal, a string between double quotes with the quote, the backslash and the control
  characters escaped (the short escapes where JSON has one, four hexadecimal digits
  otherwise), arrays and objects with commas and no white space. A number that is not an
  integer is not in the fragment; it is written as its integer part.
\<close>

definition hexDigit :: "nat \<Rightarrow> char" where
  "hexDigit d = (if d < 10 then char_of (48 + d) else char_of (87 + d))"

definition escapeChar :: "char \<Rightarrow> string" where
  "escapeChar c =
     (if c = CHR 0x22 then [CHR 0x5C, CHR 0x22]
      else if c = CHR 0x5C then [CHR 0x5C, CHR 0x5C]
      else if c = CHR 0x08 then [CHR 0x5C, CHR ''b'']
      else if c = CHR 0x0C then [CHR 0x5C, CHR ''f'']
      else if c = CHR 0x0A then [CHR 0x5C, CHR ''n'']
      else if c = CHR 0x0D then [CHR 0x5C, CHR ''r'']
      else if c = CHR 0x09 then [CHR 0x5C, CHR ''t'']
      else if (of_char c :: nat) < 32 then
        [CHR 0x5C, CHR ''u'', CHR ''0'', CHR ''0'',
         hexDigit ((of_char c :: nat) div 16), hexDigit ((of_char c :: nat) mod 16)]
      else [c])"

definition quoteJSON :: "string \<Rightarrow> string" where
  "quoteJSON s = CHR 0x22 # concat (map escapeChar s) @ [CHR 0x22]"






text \<open>What may follow the text of a number: nothing, or a character that does not continue it.\<close>

definition numEnd :: "string \<Rightarrow> bool" where
  "numEnd rest \<longleftrightarrow>
     rest = [] \<or> (\<not> is_digit (hd rest) \<and> hd rest \<noteq> CHR ''.'' \<and> hd rest \<noteq> CHR ''e'' \<and> hd rest \<noteq> CHR ''E'')"

subsection \<open>A report as a JSON value\<close>








section \<open>Components\<close>

text \<open>What the components read of a \<^verbatim>\<open>File\<close>: its name, its MIME type and its size in bytes.\<close>

record File =
  file_name :: string
  file_type :: string
  file_size :: nat

text \<open>\<^verbatim>\<open>a || b\<close> on strings: the empty string is falsy.\<close>

definition orElse :: "string \<Rightarrow> string \<Rightarrow> string" where
  "orElse a b = (if a = [] then b else a)"

text \<open>
  \<^verbatim>\<open>trim\<close> removes white space at both ends; the white space characters here are the
  ASCII ones.
\<close>

definition isSpace :: "char \<Rightarrow> bool" where
  "isSpace c \<longleftrightarrow> c = CHR '' '' \<or> c = CHR 0x09 \<or> c = CHR 0x0A \<or> c = CHR 0x0B \<or> c = CHR 0x0C \<or> c = CHR 0x0D"

definition trim :: "string \<Rightarrow> string" where
  "trim s = rev (dropWhile isSpace (rev (dropWhile isSpace s)))"

subsection \<open>FileUpload\<close>

text \<open>
  The state of the component. A handler returns the new state and the calls of
  \<^verbatim>\<open>onFileSelect\<close> it made, in order.
\<close>

record FileUpload =
  isDragging :: bool
  upload_error :: "string option"

definition initialFileUpload :: FileUpload where
  "initialFileUpload = \<lparr>isDragging = False, upload_error = None\<rparr>"

definition validateAndUpload :: "File \<Rightarrow> FileUpload \<Rightarrow> FileUpload \<times> File list" where
  "validateAndUpload file u =
     (if file_type file \<noteq> ''application/pdf'' then
        (u\<lparr>upload_error := Some ''Please upload a PDF file.''\<rparr>, [])
      else if file_size file > 20 * 1024 * 1024 then
        (u\<lparr>upload_error := Some ''File size exceeds 20MB limit.''\<rparr>, [])
      else (u, [file]))"

definition handleDragOver :: "FileUpload \<Rightarrow> FileUpload" where
  "handleDragOver u = u\<lparr>isDragging := True\<rparr>"

definition handleDragLeave :: "FileUpload \<Rightarrow> FileUpload" where
  "handleDragLeave u = u\<lparr>isDragging := False\<rparr>"

definition handleDrop :: "File list \<Rightarrow> FileUpload \<Rightarrow> FileUpload \<times> File list" where
  "handleDrop files u =
     (let u' = u\<lparr>isDragging := False, upload_error := None\<rparr>
      in case files of [] \<Rightarrow> (u', []) | f # rest \<Rightarrow> validateAndUpload f u')"

text \<open>\<^verbatim>\<open>e.target.files\<close> may be null.\<close>

definition handleFileInput :: "File list option \<Rightarrow> FileUpload \<Rightarrow> FileUpload \<times> File list" where
  "handleFileInput files u =
     (let u' = u\<lparr>upload_error := None\<rparr>
      in case files of
           None \<Rightarrow> (u', [])
         | Some [] \<Rightarrow> (u', [])
         | Some (f # rest) \<Rightarrow> validateAndUpload f u')"

text \<open>The message box under the drop zone: rendered when \<^verbatim>\<open>error\<close> is truthy.\<close>

definition shownError :: "FileUpload \<Rightarrow> string option" where
  "shownError u = (case upload_error u of None \<Rightarrow> None | Some m \<Rightarrow> if m = [] then None else Some m)"

subsection \<open>ImageGenerator\<close>

record Generator =
  gen_prompt :: string
  gen_size :: ImageSize
  isGenerating :: bool
  generatedImage :: "string option"
  gen_error :: "string option"

definition initialGenerator :: Generator where
  "initialGenerator =
     \<lparr>gen_prompt = [], gen_size = Size1K, isGenerating = False, generatedImage = None,
      gen_error = None\<rparr>"

text \<open>The button is disabled while \<^verbatim>\<open>isGenerating || !prompt.trim()\<close>.\<close>

definition generateEnabled :: "Generator \<Rightarrow> bool" where
  "generateEnabled g \<longleftrightarrow> \<not> (isGenerating g \<or> trim (gen_prompt g) = [])"

text \<open>
  \<^verbatim>\<open>handleGenerate\<close> in two halves: up to the awaited call, with whether the call was
  made, and from the outcome of the call on (\<^verbatim>\<open>try\<close>, \<^verbatim>\<open>catch\<close> and \<^verbatim>\<open>finally\<close>).
\<close>

definition handleGenerate_call :: "Generator \<Rightarrow> Generator \<times> bool" where
  "handleGenerate_call g =
     (if trim (gen_prompt g) = [] then (g, False)
      else (g\<lparr>isGenerating := True, gen_error := None, generatedImage := None\<rparr>, True))"

definition handleGenerate_settled :: "js_error + string \<Rightarrow> Generator \<Rightarrow> Generator" where
  "handleGenerate_settled r g =
     (case r of
        Inr result \<Rightarrow> g\<lparr>generatedImage := Some result, isGenerating := False\<rparr>
      | Inl err \<Rightarrow>
          g\<lparr>gen_error := Some (orElse (message err) ''Failed to generate image''),
            isGenerating := False\<rparr>)"

subsection \<open>ImageEditor\<close>

text \<open>\<^verbatim>\<open>previewUrl\<close> is an object URL; it is given by the file it points to.\<close>

record Editor =
  originalFile :: "File option"
  previewUrl :: "File option"
  editedImage :: "string option"
  edit_prompt :: string
  isProcessing :: bool
  edit_error :: "string option"

definition initialEditor :: Editor where
  "initialEditor =
     \<lparr>originalFile = None, previewUrl = None, editedImage = None, edit_prompt = [],
      isProcessing = False, edit_error = None\<rparr>"

definition Editor_handleFileSelect :: "File list option \<Rightarrow> Editor \<Rightarrow> Editor" where
  "Editor_handleFileSelect files e =
     (case files of
        None \<Rightarrow> e
      | Some [] \<Rightarrow> e
      | Some (file # rest) \<Rightarrow>
          if \<not> prefix ''image/'' (file_type file) then
            e\<lparr>edit_error := Some ''Please upload an image file (PNG, JPG).''\<rparr>
          else
            e\<lparr>originalFile := Some file, previewUrl := Some file, editedImage := None,
              edit_error := None\<rparr>)"

text \<open>
  The Apply Edit button is rendered once a file is chosen, and is disabled while
  \<^verbatim>\<open>isProcessing || !prompt.trim()\<close>.
\<close>

definition editEnabled :: "Editor \<Rightarrow> bool" where
  "editEnabled e \<longleftrightarrow> originalFile e \<noteq> None \<and> \<not> (isProcessing e \<or> trim (edit_prompt e) = [])"

definition handleEdit_call :: "Editor \<Rightarrow> Editor \<times> bool" where
  "handleEdit_call e =
     (if originalFile e = None \<or> trim (edit_prompt e) = [] then (e, False)
      else (e\<lparr>isProcessing := True, edit_error := None\<rparr>, True))"

definition handleEdit_settled :: "js_error + string \<Rightarrow> Editor \<Rightarrow> Editor" where
  "handleEdit_settled r e =
     (case r of
        Inr result \<Rightarrow> e\<lparr>editedImage := Some result, isProcessing := False\<rparr>
      | Inl err \<Rightarrow>
          e\<lparr>edit_error := Some (orElse (message err) ''Failed to edit image''),
            isProcessing := False\<rparr>)"

definition reset :: "Editor \<Rightarrow> Editor" where
  "reset e =
     e\<lparr>originalFile := None, previewUrl := None, editedImage := None, edit_prompt := [],
       edit_error := None\<rparr>"

section \<open>App\<close>

datatype Tab = PREFLIGHT | GENERATOR | EDITOR

text \<open>
  The state of \<^verbatim>\<open>App\<close> and of the components it renders. A component that is not rendered
  has no state: \<^verbatim>\<open>FileUpload\<close>, \<^verbatim>\<open>ImageGenerator\<close> and \<^verbatim>\<open>ImageEditor\<close> are \<open>None\<close> then, and
  mounting one again starts it from its initial state. Two fields are not in the source
  and record what the browser knows: \<open>pending\<close> holds the calls that were made and have
  not settled yet, and \<open>mounts\<close> counts the generator and editor instances mounted so far,
  so that each instance has a number and a call names the instance that made it.
  \<^verbatim>\<open>ReportDashboard\<close> and \<^verbatim>\<open>AnalysisStatus\<close> keep state of their own, which no call and no
  handler of \<^verbatim>\<open>App\<close> reads; it is not part of this record.
\<close>

datatype Call = AnalyzeCall | GenerateCall nat | EditCall nat

record App =
  activeTab :: Tab
  hasApiKey :: bool
  isCheckingKey :: bool
  file' :: "File option"
  fileBase64 :: "string option"
  isAnalyzing :: bool
  report :: "json option"
  error :: "string option"
  fileUpload :: "FileUpload option"
  generator :: "(nat \<times> Generator) option"
  editor :: "(nat \<times> Editor) option"
  mounts :: nat
  pending :: "Call multiset"

definition initialApp :: App where
  "initialApp =
     \<lparr>activeTab = PREFLIGHT, hasApiKey = False, isCheckingKey = True, file' = None,
      fileBase64 = None, isAnalyzing = False, report = None, error = None,
      fileUpload = None, generator = None, editor = None, mounts = 0, pending = {#}\<rparr>"

subsection \<open>What App renders\<close>

text \<open>Truthiness of a parsed value, of the report and of the error message.\<close>

fun truthy :: "json \<Rightarrow> bool" where
  "truthy JNull = False"
| "truthy (JBool b) = b"
| "truthy (JNumber n) = (n \<noteq> 0)"
| "truthy (JString s) = (s \<noteq> [])"
| "truthy (JArray xs) = True"
| "truthy (JObject fs) = True"

definition hasReport :: "App \<Rightarrow> bool" where
  "hasReport s = (case report s of None \<Rightarrow> False | Some j \<Rightarrow> truthy j)"

definition hasError :: "App \<Rightarrow> bool" where
  "hasError s = (case error s of None \<Rightarrow> False | Some m \<Rightarrow> m \<noteq> [])"

definition gateOpen :: "App \<Rightarrow> bool" where
  "gateOpen s \<longleftrightarrow> \<not> isCheckingKey s \<and> hasApiKey s"

definition dashboardView :: "App \<Rightarrow> bool" where
  "dashboardView s \<longleftrightarrow>
     gateOpen s \<and> hasReport s \<and> file' s \<noteq> None \<and> \<not> isAnalyzing s \<and> activeTab s = PREFLIGHT"

definition mainView :: "App \<Rightarrow> bool" where
  "mainView s \<longleftrightarrow> gateOpen s \<and> \<not> dashboardView s"

definition showsFileUpload :: "App \<Rightarrow> bool" where
  "showsFileUpload s \<longleftrightarrow> mainView s \<and> activeTab s = PREFLIGHT \<and> file' s = None \<and> \<not> hasReport s"

definition showsErrorBox :: "App \<Rightarrow> bool" where
  "showsErrorBox s \<longleftrightarrow>
     mainView s \<and> activeTab s = PREFLIGHT \<and> hasError s \<and> \<not> isAnalyzing s \<and> \<not> hasReport s"

definition showsGenerator :: "App \<Rightarrow> bool" where
  "showsGenerator s \<longleftrightarrow> mainView s \<and> activeTab s = GENERATOR"

definition showsEditor :: "App \<Rightarrow> bool" where
  "showsEditor s \<longleftrightarrow> mainView s \<and> activeTab s = EDITOR"

text \<open>
  After the state of \<^verbatim>\<open>App\<close> changed, the components are rendered again: one that is no
  longer rendered is unmounted, one that is rendered and was not is mounted afresh, and one
  that stays keeps its state.
\<close>

definition renderFileUpload :: "App \<Rightarrow> App" where
  "renderFileUpload s =
     (if showsFileUpload s then
        (case fileUpload s of None \<Rightarrow> s\<lparr>fileUpload := Some initialFileUpload\<rparr> | Some u \<Rightarrow> s)
      else s\<lparr>fileUpload := None\<rparr>)"

definition renderGenerator :: "App \<Rightarrow> App" where
  "renderGenerator s =
     (if showsGenerator s then
        (case generator s of
           None \<Rightarrow> s\<lparr>generator := Some (mounts s, initialGenerator), mounts := Suc (mounts s)\<rparr>
         | Some g \<Rightarrow> s)
      else s\<lparr>generator := None\<rparr>)"

definition renderEditor :: "App \<Rightarrow> App" where
  "renderEditor s =
     (if showsEditor s then
        (case editor s of
           None \<Rightarrow> s\<lparr>editor := Some (mounts s, initialEditor), mounts := Suc (mounts s)\<rparr>
         | Some e \<Rightarrow> s)
      else s\<lparr>editor := None\<rparr>)"

definition render :: "App \<Rightarrow> App" where
  "render s = renderEditor (renderGenerator (renderFileUpload s))"

subsection \<open>The handlers of App\<close>

text \<open>
  \<^verbatim>\<open>handleFileSelect\<close> in two halves, as the handlers of the components: up to the first
  \<^verbatim>\<open>await\<close>, and from the outcome of reading the file and calling \<^verbatim>\<open>analyzePdf\<close> on (the
  file in base64 and the report, or the error of either step).
\<close>

definition App_handleFileSelect_call :: "File \<Rightarrow> App \<Rightarrow> App" where
  "App_handleFileSelect_call selectedFile s =
     s\<lparr>file' := Some selectedFile, isAnalyzing := True, error := None, report := None,
       pending := add_mset AnalyzeCall (pending s)\<rparr>"

definition App_handleFileSelect_settled :: "js_error + string \<times> json \<Rightarrow> App \<Rightarrow> App" where
  "App_handleFileSelect_settled r s =
     (case r of
        Inr (base64, result) \<Rightarrow>
          s\<lparr>fileBase64 := Some base64, report := Some result, isAnalyzing := False\<rparr>
      | Inl err \<Rightarrow>
          s\<lparr>error := Some (orElse (message err) ''An unexpected error occurred.''),
            file' := None, fileBase64 := None, isAnalyzing := False\<rparr>)"

definition handleReset :: "App \<Rightarrow> App" where
  "handleReset s = s\<lparr>file' := None, fileBase64 := None, report := None, error := None\<rparr>"

subsection \<open>Events\<close>

text \<open>
  What can happen: the key check finishes (with the answer, or with an exception), the
  key dialog closes, the user acts on something that is rendered, or a pending call
  settles with its outcome. An event takes effect only where the source lets it: an action
  needs its button or input on the screen and enabled, a settlement needs its call to be
  pending, and a settlement for a component that was unmounted changes no state. Each
  event is handled to the end, with the rendering that follows, before the next one.
\<close>

datatype Event =
  KeyChecked "bool option"
| SelectKey
| SwitchTab Tab
| DragOver
| DragLeave
| Drop "File list"
| FileInput "File list option"
| Reset
| AnalysisSettled "js_error + string \<times> json"
| SetPrompt string
| SetSize ImageSize
| Generate
| GenerationSettled nat "js_error + string"
| EditorFileInput "File list option"
| SetEditPrompt string
| Edit
| EditorReset
| EditSettled nat "js_error + string"

definition selectFiles :: "FileUpload \<times> File list \<Rightarrow> App \<Rightarrow> App" where
  "selectFiles r s =
     foldl (\<lambda>s' f. App_handleFileSelect_call f s') (s\<lparr>fileUpload := Some (fst r)\<rparr>) (snd r)"

fun handle :: "Event \<Rightarrow> App \<Rightarrow> App" where
  "handle (KeyChecked r) s =
     (if isCheckingKey s then
        (case r of
           Some hasKey \<Rightarrow> s\<lparr>hasApiKey := hasKey, isCheckingKey := False\<rparr>
         | None \<Rightarrow> s\<lparr>isCheckingKey := False\<rparr>)
      else s)"
| "handle SelectKey s =
     (if \<not> isCheckingKey s \<and> \<not> hasApiKey s then s\<lparr>hasApiKey := True\<rparr> else s)"
| "handle (SwitchTab t) s = (if mainView s then s\<lparr>activeTab := t\<rparr> else s)"
| "handle DragOver s =
     (case fileUpload s of None \<Rightarrow> s | Some u \<Rightarrow> s\<lparr>fileUpload := Some (handleDragOver u)\<rparr>)"
| "handle DragLeave s =
     (case fileUpload s of None \<Rightarrow> s | Some u \<Rightarrow> s\<lparr>fileUpload := Some (handleDragLeave u)\<rparr>)"
| "handle (Drop files) s =
     (case fileUpload s of None \<Rightarrow> s | Some u \<Rightarrow> selectFiles (handleDrop files u) s)"
| "handle (FileInput files) s =
     (case fileUpload s of None \<Rightarrow> s | Some u \<Rightarrow> selectFiles (handleFileInput files u) s)"
| "handle Reset s = (if showsErrorBox s \<or> dashboardView s then handleReset s else s)"
| "handle (AnalysisSettled r) s =
     (if AnalyzeCall \<in># pending s then
        App_handleFileSelect_settled r (s\<lparr>pending := pending s - {#AnalyzeCall#}\<rparr>)
      else s)"
| "handle (SetPrompt p) s =
     (case generator s of
        None \<Rightarrow> s
      | Some (k, g) \<Rightarrow> s\<lparr>generator := Some (k, g\<lparr>gen_prompt := p\<rparr>)\<rparr>)"
| "handle (SetSize z) s =
     (case generator s of
        None \<Rightarrow> s
      | Some (k, g) \<Rightarrow> s\<lparr>generator := Some (k, g\<lparr>gen_size := z\<rparr>)\<rparr>)"
| "handle Generate s =
     (case generator s of
        None \<Rightarrow> s
      | Some (k, g) \<Rightarrow>
          if generateEnabled g then
            (let (g', called) = handleGenerate_call g
             in s\<lparr>generator := Some (k, g'),
                  pending := (if called then add_mset (GenerateCall k) (pending s) else pending s)\<rparr>)
          else s)"
| "handle (GenerationSettled k r) s =
     (if GenerateCall k \<in># pending s then
        (let s' = s\<lparr>pending := pending s - {#GenerateCall k#}\<rparr>
         in case generator s of
              None \<Rightarrow> s'
            | Some (k', g) \<Rightarrow>
                if k' = k then s'\<lparr>generator := Some (k, handleGenerate_settled r g)\<rparr> else s')
      else s)"
| "handle (EditorFileInput files) s =
     (case editor s of
        None \<Rightarrow> s
      | Some (k, e) \<Rightarrow>
          if originalFile e = None then s\<lparr>editor := Some (k, Editor_handleFileSelect files e)\<rparr> else s)"
| "handle (SetEditPrompt p) s =
     (case editor s of
        None \<Rightarrow> s
      | Some (k, e) \<Rightarrow>
          if originalFile e \<noteq> None then s\<lparr>editor := Some (k, e\<lparr>edit_prompt := p\<rparr>)\<rparr> else s)"
| "handle Edit s =
     (case editor s of
        None \<Rightarrow> s
      | Some (k, e) \<Rightarrow>
          if editEnabled e then
            (let (e', called) = handleEdit_call e
             in s\<lparr>editor := Some (k, e'),
                  pending := (if called then add_mset (EditCall k) (pending s) else pending s)\<rparr>)
          else s)"
| "handle EditorReset s =
     (case editor s of
        None \<Rightarrow> s
      | Some (k, e) \<Rightarrow> if originalFile e \<noteq> None then s\<lparr>editor := Some (k, reset e)\<rparr> else s)"
| "handle (EditSettled k r) s =
     (if EditCall k \<in># pending s then
        (let s' = s\<lparr>pending := pending s - {#EditCall k#}\<rparr>
         in case editor s of
              None \<Rightarrow> s'
            | Some (k', e) \<Rightarrow>
                if k' = k then s'\<lparr>editor := Some (k, handleEdit_settled r e)\<rparr> else s')
      else s)"

definition step :: "Event \<Rightarrow> App \<Rightarrow> App" where
  "step ev s = render (handle ev s)"

definition run :: "Event list \<Rightarrow> App \<Rightarrow> App" where
  "run evs s = foldl (\<lambda>s' ev. step ev s') s evs"

text \<open>The events that are an action on a trigger of a remote call, and the settlements.\<close>

fun isTrigger :: "Event \<Rightarrow> bool" where
  "isTrigger (Drop files) = True"
| "isTrigger (FileInput files) = True"
| "isTrigger Generate = True"
| "isTrigger Edit = True"
| "isTrigger ev = False"

fun isSettlement :: "Event \<Rightarrow> bool" where
  "isSettlement (AnalysisSettled r) = True"
| "isSettlement (GenerationSettled k r) = True"
| "isSettlement (EditSettled k r) = True"
| "isSettlement ev = False"

subsection \<open>Calls in flight\<close>

text \<open>
  The bookkeeping that the handlers keep between their flags and the calls in flight:
  \<^verbatim>\<open>isAnalyzing\<close> is set exactly while the one analysis call is pending, and then a file is
  selected; a mounted generator or editor has its flag set exactly while the one call of
  this instance is pending; and every pending call of a generator or an editor names an
  instance that was mounted. \<open>uploadRendered\<close> says that a mounted \<^verbatim>\<open>FileUpload\<close> is one that
  \<^verbatim>\<open>App\<close> renders.
\<close>

definition analysisCalls :: "App \<Rightarrow> bool" where
  "analysisCalls s \<longleftrightarrow>
     count (pending s) AnalyzeCall = (if isAnalyzing s then 1 else 0)
     \<and> (isAnalyzing s \<longrightarrow> file' s \<noteq> None)"

definition generatorCalls :: "App \<Rightarrow> bool" where
  "generatorCalls s \<longleftrightarrow>
     (\<forall>k g. generator s = Some (k, g) \<longrightarrow>
        k < mounts s \<and> count (pending s) (GenerateCall k) = (if isGenerating g then 1 else 0))
     \<and> (\<forall>k. GenerateCall k \<in># pending s \<longrightarrow> k < mounts s)"

definition editorCalls :: "App \<Rightarrow> bool" where
  "editorCalls s \<longleftrightarrow>
     (\<forall>k e. editor s = Some (k, e) \<longrightarrow>
        k < mounts s \<and> count (pending s) (EditCall k) = (if isProcessing e then 1 else 0))
     \<and> (\<forall>k. EditCall k \<in># pending s \<longrightarrow> k < mounts s)"

definition uploadRendered :: "App \<Rightarrow> bool" where
  "uploadRendered s \<longleftrightarrow> (fileUpload s \<noteq> None \<longrightarrow> showsFileUpload s)"

section \<open>Example inputs\<close>

definition rgbCheck :: CheckItem where
  "rgbCheck = \<lparr>category = COLOR, status = FAIL, title = ''RGB images detected'',
     description = ''Images use an RGB colour space.'', location = None, visualZone = None\<rparr>"

definition smudgeCheck :: CheckItem where
  "smudgeCheck = \<lparr>category = IMAGERY, status = WARN, title = ''Low resolution'',
     description = ''The logo looks pixelated.'', location = Some ''Page 1'', visualZone = Some ''HEADER''\<rparr>"

definition loadedDashboard :: Dashboard where
  "loadedDashboard = initialDashboard\<lparr>pdfDoc := True\<rparr>"

definition replyWith :: "Response \<Rightarrow> Service" where
  "replyWith r req = Inr r"

definition failWith :: "js_error \<Rightarrow> Service" where
  "failWith e req = Inl e"

definition textReply :: "string \<Rightarrow> Response" where
  "textReply t = \<lparr>response_text = Some t, candidates = None\<rparr>"

definition partsReply :: "Part list \<Rightarrow> Response" where
  "partsReply ps =
     \<lparr>response_text = None, candidates = Some [\<lparr>content = Some \<lparr>parts = Some ps\<rparr>\<rparr>]\<rparr>"

definition captionPart :: Part where
  "captionPart = \<lparr>part_text = Some ''Here is your image.'', inlineData = None\<rparr>"

definition jpegPart :: Part where
  "jpegPart = \<lparr>part_text = None, inlineData = Some \<lparr>data = ''/9j/4AAQ'', mimeType = ''image/jpeg''\<rparr>\<rparr>"

definition pngPart :: Part where
  "pngPart = \<lparr>part_text = None, inlineData = Some \<lparr>data = ''iVBORw0KGgo='', mimeType = ''image/png''\<rparr>\<rparr>"

text \<open>A JSON string literal: the characters between double quotes.\<close>

definition quoted :: "string \<Rightarrow> string" where
  "quoted s = CHR 0x22 # s @ [CHR 0x22]"

text \<open>
  A reply text without \<^verbatim>\<open>specs\<close>, and the reply of the first end-to-end scenario of the
  specification, completed with a summary and a description.
\<close>

definition missingSpecsText :: string where
  "missingSpecsText =
     ''{'' @ quoted ''overallScore'' @ '': 82, ''
       @ quoted ''summary'' @ '': '' @ quoted ''Images are RGB.'' @ '', ''
       @ quoted ''finalVerdict'' @ '': '' @ quoted ''NEEDS_REVIEW'' @ '', ''
       @ quoted ''checks'' @ '': []}''"

definition missingSpecsValue :: json where
  "missingSpecsValue =
     JObject [(''overallScore'', JNumber 82), (''summary'', JString ''Images are RGB.''),
              (''finalVerdict'', JString ''NEEDS_REVIEW''), (''checks'', JArray [])]"





text \<open>Files offered for analysis, and two sessions of the application.\<close>

definition pdf5 :: File where
  "pdf5 = \<lparr>file_name = ''flyer.pdf'', file_type = ''application/pdf'', file_size = 5 * 1024 * 1024\<rparr>"

definition pdf25 :: File where
  "pdf25 = \<lparr>file_name = ''poster.pdf'', file_type = ''application/pdf'', file_size = 25 * 1024 * 1024\<rparr>"

definition png1 :: File where
  "png1 = \<lparr>file_name = ''logo.png'', file_type = ''image/png'', file_size = 1024\<rparr>"

definition keyAccepted :: "Event list" where
  "keyAccepted = [KeyChecked (Some True)]"

definition backOnGenerator :: "Event list" where
  "backOnGenerator =
     [KeyChecked (Some True), SwitchTab GENERATOR, SetPrompt ''a red kite'', Generate,
      SwitchTab PREFLIGHT, SwitchTab GENERATOR, SetPrompt ''a blue kite'']"

definition twoGenerations :: "Event list" where
  "twoGenerations = backOnGenerator @ [Generate]"

definition analysisStarted :: "Event list" where
  "analysisStarted = keyAccepted @ [Drop [pdf5]]"

definition editStarted :: "Event list" where
  "editStarted =
     [KeyChecked (Some True), SwitchTab EDITOR, EditorFileInput (Some [png1]),
      SetEditPrompt ''make it blue'', Edit]"


section \<open>Grouping of the checks\<close>

lemma status_groups_mset:
  "mset (filter (\<lambda>c. status c = FAIL) xs) + mset (filter (\<lambda>c. status c = WARN) xs)
     + mset (filter (\<lambda>c. status c = PASS) xs) = mset xs"
proof (induction xs)
  case Nil
  show ?case by simp
next
  case (Cons x xs)
  then show ?case by (cases "status x") simp_all
qed

text \<open>
  Claim C7. The groups of the dashboard partition the checks of the report by status and
  keep their order: each group is a subsequence of \<^verbatim>\<open>report.checks\<close>, it holds exactly the
  checks of its status, each as often as the report has it, the three groups together
  hold every check once, and the sections come in the order FAIL, WARN, PASS.
\<close>

theorem checksByStatus_partition:
  "subseq (checksByStatus rep s) (checks rep)
   \<and> mset (checksByStatus rep s) = filter_mset (\<lambda>c. status c = s) (mset (checks rep))
   \<and> mset (checksByStatus rep FAIL) + mset (checksByStatus rep WARN)
        + mset (checksByStatus rep PASS) = mset (checks rep)
   \<and> map fst (sections rep) = [FAIL, WARN, PASS]
   \<and> map snd (sections rep) = map (checksByStatus rep) [FAIL, WARN, PASS]"
  using status_groups_mset [of "checks rep"]
  by (simp add: checksByStatus_def sections_def)

section \<open>The zone mapper\<close>

lemmas zone_eval = zoneRect_def getZoneStyles_def base_def declarations_def utility_def layout_def cell_def fullPage_def

lemma zoneRect_TOP_LEFT: "zoneRect ''TOP_LEFT'' = Some (cell 0 0)" by (simp add: zone_eval)
lemma zoneRect_TOP_CENTER: "zoneRect ''TOP_CENTER'' = Some (cell 0 1)" by (simp add: zone_eval)
lemma zoneRect_TOP_RIGHT: "zoneRect ''TOP_RIGHT'' = Some (cell 0 2)" by (simp add: zone_eval)
lemma zoneRect_MIDDLE_LEFT: "zoneRect ''MIDDLE_LEFT'' = Some (cell 1 0)" by (simp add: zone_eval)
lemma zoneRect_CENTER: "zoneRect ''CENTER'' = Some (cell 1 1)" by (simp add: zone_eval)
lemma zoneRect_MIDDLE_RIGHT: "zoneRect ''MIDDLE_RIGHT'' = Some (cell 1 2)" by (simp add: zone_eval)
lemma zoneRect_BOTTOM_LEFT: "zoneRect ''BOTTOM_LEFT'' = Some (cell 2 0)" by (simp add: zone_eval)
lemma zoneRect_BOTTOM_CENTER: "zoneRect ''BOTTOM_CENTER'' = Some (cell 2 1)" by (simp add: zone_eval)
lemma zoneRect_BOTTOM_RIGHT: "zoneRect ''BOTTOM_RIGHT'' = Some (cell 2 2)" by (simp add: zone_eval)
lemma zoneRect_FULL_PAGE: "zoneRect ''FULL_PAGE'' = Some fullPage" by (simp add: zone_eval)

lemmas zoneRect_grid_cells = zoneRect_TOP_LEFT zoneRect_TOP_CENTER zoneRect_TOP_RIGHT
  zoneRect_MIDDLE_LEFT zoneRect_CENTER zoneRect_MIDDLE_RIGHT
  zoneRect_BOTTOM_LEFT zoneRect_BOTTOM_CENTER zoneRect_BOTTOM_RIGHT

lemma cell_insidePage: "r < 3 \<Longrightarrow> c < 3 \<Longrightarrow> insidePage (cell r c)"
  by (simp add: insidePage_def cell_def)

lemma cell_overlap: "overlap (cell r c) (cell r' c') \<longleftrightarrow> r = r' \<and> c = c'"
proof -
  have "(of_nat a :: rat) / 3 < of_nat b / 3 + 1 / 3 \<longleftrightarrow> a \<le> b" for a b :: nat
  proof -
    have "(of_nat a :: rat) / 3 < of_nat b / 3 + 1 / 3 \<longleftrightarrow> (of_nat a :: rat) < of_nat (b + 1)"
      by (simp add: field_simps)
    also have "\<dots> \<longleftrightarrow> a < b + 1" by (simp only: of_nat_less_iff)
    finally show ?thesis by auto
  qed
  then show ?thesis by (auto simp add: overlap_def cell_def)
qed

lemma gridZones_nth:
  "r < 3 \<Longrightarrow> c < 3 \<Longrightarrow> zoneRect (gridZones ! (3 * r + c)) = Some (cell r c)"
proof -
  assume "r < 3" "c < 3"
  then have "r \<in> {0, 1, 2}" "c \<in> {0, 1, 2}" by auto
  then show ?thesis
    by (auto simp add: gridZones_def zoneRect_grid_cells)
qed

lemma gridZones_index:
  assumes "z \<in> set gridZones"
  obtains i where "i < 9" and "z = gridZones ! i"
proof -
  have "length gridZones = 9" by (simp add: gridZones_def)
  with assms show thesis using that by (metis in_set_conv_nth)
qed

text \<open>
  Claim C3. Each of the nine grid zones is laid out as exactly one cell of the 3x3 grid:
  the zones in the order TOP, MIDDLE, BOTTOM by LEFT, CENTER, RIGHT take the cells row by
  row, each one third of the page wide and high and inside the page. \<^verbatim>\<open>FULL_PAGE\<close> is the
  whole page. The rectangles of two different grid zones do not overlap: they meet at
  most along an edge of the grid.
\<close>

theorem zoneRect_grid:
  "(\<forall>z \<in> set gridZones. \<exists>r < 3. \<exists>c < 3. zoneRect z = Some (cell r c))
   \<and> (\<forall>r < 3. \<forall>c < 3. zoneRect (gridZones ! (3 * r + c)) = Some (cell r c) \<and> insidePage (cell r c))
   \<and> zoneRect ''FULL_PAGE'' = Some fullPage
   \<and> (\<forall>z1 \<in> set gridZones. \<forall>z2 \<in> set gridZones. z1 \<noteq> z2 \<longrightarrow>
         (\<exists>a b. zoneRect z1 = Some a \<and> zoneRect z2 = Some b \<and> \<not> overlap a b))"
proof (intro conjI ballI allI impI)
  fix z assume "z \<in> set gridZones"
  then obtain i where i: "i < 9" "z = gridZones ! i" by (rule gridZones_index)
  have "i div 3 < 3" "i mod 3 < 3" using i by auto
  moreover have "zoneRect z = Some (cell (i div 3) (i mod 3))"
    using gridZones_nth [of "i div 3" "i mod 3"] i by simp
  ultimately show "\<exists>r < 3. \<exists>c < 3. zoneRect z = Some (cell r c)" by blast
next
  fix r c :: nat assume "r < 3" "c < 3"
  then show "zoneRect (gridZones ! (3 * r + c)) = Some (cell r c)" by (rule gridZones_nth)
  from \<open>r < 3\<close> \<open>c < 3\<close> show "insidePage (cell r c)" by (rule cell_insidePage)
next
  show "zoneRect ''FULL_PAGE'' = Some fullPage" by (rule zoneRect_FULL_PAGE)
next
  fix z1 z2 assume z: "z1 \<in> set gridZones" "z2 \<in> set gridZones" "z1 \<noteq> z2"
  obtain i where i: "i < 9" "z1 = gridZones ! i" using z(1) by (rule gridZones_index)
  obtain j where j: "j < 9" "z2 = gridZones ! j" using z(2) by (rule gridZones_index)
  have ne: "i \<noteq> j" using z(3) i j by auto
  have "zoneRect z1 = Some (cell (i div 3) (i mod 3))"
    using gridZones_nth [of "i div 3" "i mod 3"] i by simp
  moreover have "zoneRect z2 = Some (cell (j div 3) (j mod 3))"
    using gridZones_nth [of "j div 3" "j mod 3"] j by simp
  moreover have "\<not> overlap (cell (i div 3) (i mod 3)) (cell (j div 3) (j mod 3))"
  proof -
    have "\<not> (i div 3 = j div 3 \<and> i mod 3 = j mod 3)"
    proof
      assume "i div 3 = j div 3 \<and> i mod 3 = j mod 3"
      then have "3 * (i div 3) + i mod 3 = 3 * (j div 3) + j mod 3" by simp
      then have "i = j" by simp
      with ne show False by simp
    qed
    then show ?thesis by (simp add: cell_overlap)
  qed
  ultimately show "\<exists>a b. zoneRect z1 = Some a \<and> zoneRect z2 = Some b \<and> \<not> overlap a b"
    by blast
qed

theorem zoneRect_grid_witness:
  "''TOP_RIGHT'' \<in> set gridZones \<and> ''CENTER'' \<in> set gridZones \<and> ''TOP_RIGHT'' \<noteq> ''CENTER''
   \<and> (\<exists>a b. zoneRect ''TOP_RIGHT'' = Some a \<and> zoneRect ''CENTER'' = Some b \<and> \<not> overlap a b)
   \<and> zoneRect (gridZones ! (3 * 2 + 0)) = Some (cell 2 0)"
proof -
  have m: "''TOP_RIGHT'' \<in> set gridZones" "''CENTER'' \<in> set gridZones" "''TOP_RIGHT'' \<noteq> ''CENTER''"
    by (simp_all add: gridZones_def)
  note disjoint = zoneRect_grid [THEN conjunct2, THEN conjunct2, THEN conjunct2, rule_format]
  note cells = zoneRect_grid [THEN conjunct2, THEN conjunct1, rule_format, of 2 0]
  have "\<exists>a b. zoneRect ''TOP_RIGHT'' = Some a \<and> zoneRect ''CENTER'' = Some b \<and> \<not> overlap a b"
    by (rule disjoint [OF m])
  moreover have "zoneRect (gridZones ! (3 * 2 + 0)) = Some (cell 2 0)"
    using cells by simp
  ultimately show ?thesis using m by simp
qed

subsection \<open>Unrecognized and absent zones\<close>

lemma getZoneStyles_unrecognized:
  "zone \<notin> set visualZones \<Longrightarrow> getZoneStyles zone = ''hidden''"
  by (simp add: visualZones_def gridZones_def getZoneStyles_def)

lemma layout_hidden: "layout (declarations ''hidden'') = None"
  by (simp add: declarations_def utility_def layout_def)

lemma layout_hidden_pulse: "layout (declarations (''hidden'' @ '' animate-pulse'')) = None"
  by (simp add: declarations_def utility_def layout_def)

lemma layout_full_page_pulse:
  "layout (declarations (getZoneStyles ''FULL_PAGE'' @ '' animate-pulse'')) = Some fullPage"
  by (simp add: zone_eval)

lemma hoverZone_absent:
  "visualZone item = None \<or> visualZone item = Some [] \<Longrightarrow> hoverZone item = ''FULL_PAGE''"
  by (auto simp add: hoverZone_def)

lemma hoverZone_present:
  "visualZone item = Some zone \<Longrightarrow> zone \<noteq> [] \<Longrightarrow> hoverZone item = zone"
  by (simp add: hoverZone_def)

lemma overlay_onMouseEnter:
  "overlay (onMouseEnter item i k d) =
     (if pdfDoc d then layout (declarations (getZoneStyles (hoverZone item) @ '' animate-pulse'')) else None)"
proof -
  have "hoverZone item \<noteq> []" by (simp add: hoverZone_def split: option.split)
  then show ?thesis by (simp add: overlay_def onMouseEnter_def)
qed

text \<open>
  Claim C2, as amended. \<^verbatim>\<open>getZoneStyles\<close> gives \<^verbatim>\<open>hidden\<close> for every string outside the
  ten-value enumeration, which lays out no rectangle, and hovering a check whose
  \<^verbatim>\<open>visualZone\<close> is such a string, not empty, shows no overlay. Hovering a check whose
  \<^verbatim>\<open>visualZone\<close> is absent or empty falls back to \<^verbatim>\<open>FULL_PAGE\<close>: once the preview has loaded
  the overlay covers the whole page.
\<close>

theorem overlay_unrecognized_or_absent:
  "(zone \<notin> set visualZones \<longrightarrow> getZoneStyles zone = ''hidden'' \<and> zoneRect zone = None)
   \<and> (visualZone item = Some zone \<and> zone \<noteq> [] \<and> zone \<notin> set visualZones \<longrightarrow>
        overlay (onMouseEnter item i k d) = None)
   \<and> ((visualZone item = None \<or> visualZone item = Some []) \<and> pdfDoc d \<longrightarrow>
        overlay (onMouseEnter item i k d) = Some fullPage)"
proof (intro conjI impI)
  assume z: "zone \<notin> set visualZones"
  then show "getZoneStyles zone = ''hidden''" by (rule getZoneStyles_unrecognized)
  then show "zoneRect zone = None" by (simp only: zoneRect_def layout_hidden)
next
  assume a: "visualZone item = Some zone \<and> zone \<noteq> [] \<and> zone \<notin> set visualZones"
  then have "hoverZone item = zone" by (simp add: hoverZone_present)
  moreover have "getZoneStyles zone = ''hidden''" using a by (simp add: getZoneStyles_unrecognized)
  ultimately show "overlay (onMouseEnter item i k d) = None"
    by (simp only: overlay_onMouseEnter layout_hidden_pulse if_cancel)
next
  assume a: "(visualZone item = None \<or> visualZone item = Some []) \<and> pdfDoc d"
  then have "hoverZone item = ''FULL_PAGE''" by (simp add: hoverZone_absent)
  then show "overlay (onMouseEnter item i k d) = Some fullPage"
    using a by (simp only: overlay_onMouseEnter layout_full_page_pulse if_True)
qed

text \<open>
  Claim C2 as stated fails: a check without \<^verbatim>\<open>visualZone\<close> is highlighted with the
  full-page rectangle.
\<close>

theorem absent_zone_counterexample:
  "visualZone rgbCheck = None
   \<and> overlay (onMouseEnter rgbCheck 0 ''FAIL'' loadedDashboard) = Some fullPage"
  using layout_full_page_pulse
  by (simp add: rgbCheck_def loadedDashboard_def initialDashboard_def overlay_def onMouseEnter_def hoverZone_def)

theorem overlay_unrecognized_or_absent_witness:
  "''HEADER'' \<notin> set visualZones \<and> visualZone smudgeCheck = Some ''HEADER'' \<and> ''HEADER'' \<noteq> []
   \<and> getZoneStyles ''HEADER'' = ''hidden'' \<and> zoneRect ''HEADER'' = None
   \<and> overlay (onMouseEnter smudgeCheck 0 ''WARN'' loadedDashboard) = None
   \<and> visualZone rgbCheck = None \<and> pdfDoc loadedDashboard
   \<and> overlay (onMouseEnter rgbCheck 0 ''FAIL'' loadedDashboard) = Some fullPage"
proof -
  have h: "''HEADER'' \<notin> set visualZones" by (simp add: visualZones_def gridZones_def)
  have s: "visualZone smudgeCheck = Some ''HEADER''" "''HEADER'' \<noteq> []" by (simp_all add: smudgeCheck_def)
  have r: "visualZone rgbCheck = None" "pdfDoc loadedDashboard"
    by (simp_all add: rgbCheck_def loadedDashboard_def)
  note t = overlay_unrecognized_or_absent [of "''HEADER''" smudgeCheck 0 "''WARN''" loadedDashboard]
  note u = overlay_unrecognized_or_absent [of "''HEADER''" rgbCheck 0 "''FAIL''" loadedDashboard]
  have "getZoneStyles ''HEADER'' = ''hidden'' \<and> zoneRect ''HEADER'' = None"
    using t h by (simp only: simp_thms)
  moreover have "overlay (onMouseEnter smudgeCheck 0 ''WARN'' loadedDashboard) = None"
    using t h s by (simp only: simp_thms)
  moreover have "overlay (onMouseEnter rgbCheck 0 ''FAIL'' loadedDashboard) = Some fullPage"
    using u r by (simp only: simp_thms)
  ultimately show ?thesis using h s r by (simp only: simp_thms)
qed

section \<open>The adapter\<close>

subsection \<open>Image replies\<close>

lemma partBlobs_Nil [simp]: "partBlobs [] = []"
  by (simp add: partBlobs_def)

lemma partBlobs_Cons [simp]:
  "partBlobs (p # ps) = (case inlineData p of None \<Rightarrow> partBlobs ps | Some b \<Rightarrow> b # partBlobs ps)"
  by (simp add: partBlobs_def split: option.split)

lemma partBlobs_append [simp]: "partBlobs (ps @ qs) = partBlobs ps @ partBlobs qs"
  by (simp add: partBlobs_def)

lemma partBlobs_none: "\<forall>q \<in> set ps. inlineData q = None \<Longrightarrow> partBlobs ps = []"
  by (induction ps) auto

lemma set_partBlobs: "set (partBlobs ps) = {b. \<exists>p \<in> set ps. inlineData p = Some b}"
  by (induction ps) (auto split: option.splits)

lemma firstImage_Nil: "partBlobs ps = [] \<Longrightarrow> firstImage ps = None"
  by (induction ps) (auto split: option.splits)

lemma firstImage_Cons:
  "partBlobs ps = b # bs \<Longrightarrow> firstImage ps = Some (''data:image/png;base64,'' @ data b)"
  by (induction ps) (auto split: option.splits)

lemma generateImage_reply:
  assumes "ai (GenerateRequest prompt size') = Inr response"
  shows "generateImage ai prompt size' =
           (case inlineBlobs response of
              [] \<Rightarrow> Inl (Error ''No image generated in response.'')
            | b # bs \<Rightarrow> Inr (''data:image/png;base64,'' @ data b))"
proof (cases "replyParts response")
  case None
  with assms show ?thesis
    by (simp add: generateImage_def generateImage_try_def inlineBlobs_def)
next
  case (Some ps)
  have blobs: "inlineBlobs response = partBlobs ps"
    using Some by (simp add: inlineBlobs_def)
  show ?thesis
  proof (cases "inlineBlobs response")
    case Nil
    then have "firstImage ps = None" using blobs by (intro firstImage_Nil) (simp only:)
    with assms Some Nil show ?thesis by (simp add: generateImage_def generateImage_try_def)
  next
    case (Cons b bs)
    then have "firstImage ps = Some (''data:image/png;base64,'' @ data b)"
      using blobs by (intro firstImage_Cons [of _ _ bs]) (simp only:)
    with assms Some Cons show ?thesis by (simp add: generateImage_def generateImage_try_def)
  qed
qed

lemma editImage_reply:
  assumes "ai (EditRequest base64Image mime prompt) = Inr response"
  shows "editImage ai base64Image mime prompt =
           (case inlineBlobs response of
              [] \<Rightarrow> Inl (Error ''No edited image generated in response.'')
            | b # bs \<Rightarrow> Inr (''data:image/png;base64,'' @ data b))"
proof (cases "replyParts response")
  case None
  with assms show ?thesis
    by (simp add: editImage_def editImage_try_def inlineBlobs_def)
next
  case (Some ps)
  have blobs: "inlineBlobs response = partBlobs ps"
    using Some by (simp add: inlineBlobs_def)
  show ?thesis
  proof (cases "inlineBlobs response")
    case Nil
    then have "firstImage ps = None" using blobs by (intro firstImage_Nil) (simp only:)
    with assms Some Nil show ?thesis by (simp add: editImage_def editImage_try_def)
  next
    case (Cons b bs)
    then have "firstImage ps = Some (''data:image/png;base64,'' @ data b)"
      using blobs by (intro firstImage_Cons [of _ _ bs]) (simp only:)
    with assms Some Cons show ?thesis by (simp add: editImage_def editImage_try_def)
  qed
qed

text \<open>A reply has no inline blob exactly when it has no parts or none of them has inline data.\<close>

lemma inlineBlobs_Nil_iff:
  "inlineBlobs response = [] \<longleftrightarrow>
     (replyParts response = None
      \<or> (\<exists>ps. replyParts response = Some ps \<and> (\<forall>p \<in> set ps. inlineData p = None)))"
proof (cases "replyParts response")
  case None
  then show ?thesis by (simp add: inlineBlobs_def)
next
  case (Some ps)
  have "partBlobs ps = [] \<longleftrightarrow> (\<forall>p \<in> set ps. inlineData p = None)"
    by (induction ps) (auto split: option.splits)
  with Some show ?thesis by (simp add: inlineBlobs_def)
qed

lemma inlineBlobs_first:
  assumes "replyParts response = Some (before @ p # after)"
    and "\<forall>q \<in> set before. inlineData q = None" and "inlineData p = Some b"
  shows "inlineBlobs response = b # partBlobs after"
  using assms by (simp add: inlineBlobs_def partBlobs_none)

text \<open>
  Claim C5. Given a reply of the service: when the reply has no parts, or no part has
  inline data, \<^verbatim>\<open>generateImage\<close> and \<^verbatim>\<open>editImage\<close> throw their no-image error; when some part
  has inline data, they return the data of such a part as a data URI.
\<close>

theorem image_or_no_result:
  "(ai (GenerateRequest prompt size') = Inr response \<longrightarrow>
      ((replyParts response = None
          \<or> (\<exists>ps. replyParts response = Some ps \<and> (\<forall>p \<in> set ps. inlineData p = None))) \<longrightarrow>
         generateImage ai prompt size' = Inl (Error ''No image generated in response.''))
      \<and> (\<forall>ps. replyParts response = Some ps \<and> (\<exists>p \<in> set ps. inlineData p \<noteq> None) \<longrightarrow>
         (\<exists>p \<in> set ps. \<exists>b. inlineData p = Some b
            \<and> generateImage ai prompt size' = Inr (''data:image/png;base64,'' @ data b))))
   \<and> (ai (EditRequest base64Image mime prompt') = Inr response \<longrightarrow>
      ((replyParts response = None
          \<or> (\<exists>ps. replyParts response = Some ps \<and> (\<forall>p \<in> set ps. inlineData p = None))) \<longrightarrow>
         editImage ai base64Image mime prompt' = Inl (Error ''No edited image generated in response.''))
      \<and> (\<forall>ps. replyParts response = Some ps \<and> (\<exists>p \<in> set ps. inlineData p \<noteq> None) \<longrightarrow>
         (\<exists>p \<in> set ps. \<exists>b. inlineData p = Some b
            \<and> editImage ai base64Image mime prompt' = Inr (''data:image/png;base64,'' @ data b))))"
proof -
  have some: "\<exists>b bs. inlineBlobs response = b # bs \<and> (\<exists>p \<in> set ps. inlineData p = Some b)"
    if "replyParts response = Some ps \<and> (\<exists>p \<in> set ps. inlineData p \<noteq> None)" for ps
  proof -
    from that have "inlineBlobs response \<noteq> []" by (auto simp add: inlineBlobs_Nil_iff)
    then obtain b bs where c: "inlineBlobs response = b # bs"
      by (cases "inlineBlobs response") auto
    with that have "b \<in> set (partBlobs ps)" by (simp add: inlineBlobs_def)
    then have "\<exists>p \<in> set ps. inlineData p = Some b" by (simp add: set_partBlobs)
    with c show ?thesis by auto
  qed
  show ?thesis
  proof (intro conjI impI allI)
    assume r: "ai (GenerateRequest prompt size') = Inr response"
    { assume "replyParts response = None
          \<or> (\<exists>ps. replyParts response = Some ps \<and> (\<forall>p \<in> set ps. inlineData p = None))"
      then have "inlineBlobs response = []" by (simp only: inlineBlobs_Nil_iff)
      then show "generateImage ai prompt size' = Inl (Error ''No image generated in response.'')"
        using generateImage_reply [of ai prompt size' response] r by simp }
    { fix ps
      assume "replyParts response = Some ps \<and> (\<exists>p \<in> set ps. inlineData p \<noteq> None)"
      then obtain b bs p where "inlineBlobs response = b # bs" "p \<in> set ps" "inlineData p = Some b"
        using some by blast
      moreover from this have "generateImage ai prompt size' = Inr (''data:image/png;base64,'' @ data b)"
        using generateImage_reply [of ai prompt size' response] r by simp
      ultimately show "\<exists>p \<in> set ps. \<exists>b. inlineData p = Some b
            \<and> generateImage ai prompt size' = Inr (''data:image/png;base64,'' @ data b)"
        by (intro bexI [of _ p] exI [of _ b] conjI) }
  next
    assume r: "ai (EditRequest base64Image mime prompt') = Inr response"
    { assume "replyParts response = None
          \<or> (\<exists>ps. replyParts response = Some ps \<and> (\<forall>p \<in> set ps. inlineData p = None))"
      then have "inlineBlobs response = []" by (simp only: inlineBlobs_Nil_iff)
      then show "editImage ai base64Image mime prompt' = Inl (Error ''No edited image generated in response.'')"
        using editImage_reply [of ai base64Image mime prompt' response] r by simp }
    { fix ps
      assume "replyParts response = Some ps \<and> (\<exists>p \<in> set ps. inlineData p \<noteq> None)"
      then obtain b bs p where "inlineBlobs response = b # bs" "p \<in> set ps" "inlineData p = Some b"
        using some by blast
      moreover from this have "editImage ai base64Image mime prompt' = Inr (''data:image/png;base64,'' @ data b)"
        using editImage_reply [of ai base64Image mime prompt' response] r by simp
      ultimately show "\<exists>p \<in> set ps. \<exists>b. inlineData p = Some b
            \<and> editImage ai base64Image mime prompt' = Inr (''data:image/png;base64,'' @ data b)"
        by (intro bexI [of _ p] exI [of _ b] conjI) }
  qed
qed

lemma replyParts_partsReply: "replyParts (partsReply ps) = Some ps"
  by (simp add: replyParts_def partsReply_def)

theorem image_or_no_result_witness:
  "generateImage (replyWith (partsReply [captionPart])) ''a red kite'' Size2K
     = Inl (Error ''No image generated in response.'')
   \<and> editImage (replyWith (partsReply [captionPart])) ''iVBORw0KGgo='' ''image/png'' ''make it blue''
     = Inl (Error ''No edited image generated in response.'')
   \<and> (\<exists>p \<in> set [captionPart, jpegPart]. \<exists>b. inlineData p = Some b
        \<and> generateImage (replyWith (partsReply [captionPart, jpegPart])) ''a red kite'' Size2K
            = Inr (''data:image/png;base64,'' @ data b))"
proof -
  let ?none = "partsReply [captionPart]" and ?some = "partsReply [captionPart, jpegPart]"
  note n = image_or_no_result [where ai = "replyWith ?none" and prompt = "''a red kite''"
      and size' = Size2K and response = ?none and base64Image = "''iVBORw0KGgo=''"
      and mime = "''image/png''" and prompt' = "''make it blue''"]
  note s = image_or_no_result [where ai = "replyWith ?some" and prompt = "''a red kite''"
      and size' = Size2K and response = ?some and base64Image = "''iVBORw0KGgo=''"
      and mime = "''image/png''" and prompt' = "''make it blue''"]
  have gn: "replyWith ?none (GenerateRequest ''a red kite'' Size2K) = Inr ?none"
    and en: "replyWith ?none (EditRequest ''iVBORw0KGgo='' ''image/png'' ''make it blue'') = Inr ?none"
    and gs: "replyWith ?some (GenerateRequest ''a red kite'' Size2K) = Inr ?some"
    by (simp_all only: replyWith_def)
  have none: "replyParts ?none = None
      \<or> (\<exists>ps. replyParts ?none = Some ps \<and> (\<forall>p \<in> set ps. inlineData p = None))"
    by (simp add: replyParts_partsReply captionPart_def)
  have some: "replyParts ?some = Some [captionPart, jpegPart]
      \<and> (\<exists>p \<in> set [captionPart, jpegPart]. inlineData p \<noteq> None)"
    by (simp add: replyParts_partsReply jpegPart_def)
  have "generateImage (replyWith ?none) ''a red kite'' Size2K
      = Inl (Error ''No image generated in response.'')"
    by (rule n [THEN conjunct1, THEN mp, OF gn, THEN conjunct1, THEN mp, OF none])
  moreover have "editImage (replyWith ?none) ''iVBORw0KGgo='' ''image/png'' ''make it blue''
      = Inl (Error ''No edited image generated in response.'')"
    by (rule n [THEN conjunct2, THEN mp, OF en, THEN conjunct1, THEN mp, OF none])
  moreover have "\<exists>p \<in> set [captionPart, jpegPart]. \<exists>b. inlineData p = Some b
        \<and> generateImage (replyWith ?some) ''a red kite'' Size2K
            = Inr (''data:image/png;base64,'' @ data b)"
    by (rule s [THEN conjunct1, THEN mp, OF gs, THEN conjunct2, THEN spec, THEN mp, OF some])
  ultimately show ?thesis by (intro conjI)
qed

text \<open>
  Claim C10. The image returned is the inline data of the first part that has any, in
  part order, and the data URI always starts with \<^verbatim>\<open>data:image/png;base64,\<close>: neither the
  MIME type of the returned blob nor the MIME type passed to \<^verbatim>\<open>editImage\<close> enters it.
\<close>

theorem first_inline_part_as_png:
  "(ai (GenerateRequest prompt size') = Inr response
      \<and> replyParts response = Some (before @ p # after)
      \<and> (\<forall>q \<in> set before. inlineData q = None) \<and> inlineData p = Some b \<longrightarrow>
      generateImage ai prompt size' = Inr (''data:image/png;base64,'' @ data b))
   \<and> (ai (EditRequest base64Image mime prompt') = Inr response
      \<and> replyParts response = Some (before @ p # after)
      \<and> (\<forall>q \<in> set before. inlineData q = None) \<and> inlineData p = Some b \<longrightarrow>
      editImage ai base64Image mime prompt' = Inr (''data:image/png;base64,'' @ data b))"
proof (intro conjI impI)
  assume a: "ai (GenerateRequest prompt size') = Inr response
      \<and> replyParts response = Some (before @ p # after)
      \<and> (\<forall>q \<in> set before. inlineData q = None) \<and> inlineData p = Some b"
  then have "replyParts response = Some (before @ p # after)"
    and "\<forall>q \<in> set before. inlineData q = None" and "inlineData p = Some b"
    by blast+
  then have "inlineBlobs response = b # partBlobs after" by (rule inlineBlobs_first)
  then show "generateImage ai prompt size' = Inr (''data:image/png;base64,'' @ data b)"
    using generateImage_reply [of ai prompt size' response] a by simp
next
  assume a: "ai (EditRequest base64Image mime prompt') = Inr response
      \<and> replyParts response = Some (before @ p # after)
      \<and> (\<forall>q \<in> set before. inlineData q = None) \<and> inlineData p = Some b"
  then have "replyParts response = Some (before @ p # after)"
    and "\<forall>q \<in> set before. inlineData q = None" and "inlineData p = Some b"
    by blast+
  then have "inlineBlobs response = b # partBlobs after" by (rule inlineBlobs_first)
  then show "editImage ai base64Image mime prompt' = Inr (''data:image/png;base64,'' @ data b)"
    using editImage_reply [of ai base64Image mime prompt' response] a by simp
qed

theorem first_inline_part_as_png_witness:
  "mimeType \<lparr>data = ''/9j/4AAQ'', mimeType = ''image/jpeg''\<rparr> = ''image/jpeg''
   \<and> generateImage (replyWith (partsReply [captionPart, jpegPart, pngPart])) ''a red kite'' Size4K
       = Inr ''data:image/png;base64,/9j/4AAQ''
   \<and> editImage (replyWith (partsReply [captionPart, jpegPart, pngPart])) ''/9j/4AAQ'' ''image/jpeg''
         ''make it blue''
       = Inr ''data:image/png;base64,/9j/4AAQ''"
proof -
  let ?r = "partsReply [captionPart, jpegPart, pngPart]"
  let ?b = "\<lparr>data = ''/9j/4AAQ'', mimeType = ''image/jpeg''\<rparr>"
  note t = first_inline_part_as_png [where ai = "replyWith ?r" and prompt = "''a red kite''"
      and size' = Size4K and response = ?r and before = "[captionPart]" and p = jpegPart
      and after = "[pngPart]" and b = ?b and base64Image = "''/9j/4AAQ''"
      and mime = "''image/jpeg''" and prompt' = "''make it blue''"]
  have parts: "replyParts ?r = Some ([captionPart] @ jpegPart # [pngPart])
      \<and> (\<forall>q \<in> set [captionPart]. inlineData q = None) \<and> inlineData jpegPart = Some ?b"
    by (simp add: replyParts_partsReply captionPart_def jpegPart_def)
  have g: "replyWith ?r (GenerateRequest ''a red kite'' Size4K) = Inr ?r"
    and e: "replyWith ?r (EditRequest ''/9j/4AAQ'' ''image/jpeg'' ''make it blue'') = Inr ?r"
    by (simp_all only: replyWith_def)
  have "generateImage (replyWith ?r) ''a red kite'' Size4K = Inr (''data:image/png;base64,'' @ data ?b)"
    by (rule t [THEN conjunct1, THEN mp, OF conjI, OF g parts])
  moreover have "editImage (replyWith ?r) ''/9j/4AAQ'' ''image/jpeg'' ''make it blue''
      = Inr (''data:image/png;base64,'' @ data ?b)"
    by (rule t [THEN conjunct2, THEN mp, OF conjI, OF e parts])
  ultimately show ?thesis by simp
qed

subsection \<open>Parsing what the serializer writes\<close>

lemma skip_ws_id: "s = [] \<or> \<not> is_ws (hd s) \<Longrightarrow> skip_ws s = s"
  by (cases s) (auto simp add: skip_ws_def)

paragraph \<open>Strings\<close>

lemma hexValue_hexDigit: "d < 16 \<Longrightarrow> hexValue (hexDigit d) = Some d"
  by (auto simp add: hexValue_def hexDigit_def Let_def)

lemma unicode_control:
  assumes "(of_char c :: nat) < 32"
  shows "unicode (CHR ''0'') (CHR ''0'') (hexDigit ((of_char c :: nat) div 16))
           (hexDigit ((of_char c :: nat) mod 16)) = Some c"
proof -
  let ?n = "of_char c :: nat"
  have z: "hexValue (CHR ''0'') = Some 0" by (simp add: hexValue_def)
  have hi: "hexValue (hexDigit (?n div 16)) = Some (?n div 16)"
    using assms by (intro hexValue_hexDigit) simp
  have lo: "hexValue (hexDigit (?n mod 16)) = Some (?n mod 16)"
    by (intro hexValue_hexDigit) simp
  have "char_of (?n div 16 * 16 + ?n mod 16) = c" by simp
  with z hi lo assms show ?thesis by (simp add: unicode_def)
qed

lemma parse_chars_escapeChar:
  "parse_chars acc (escapeChar c @ rest) = parse_chars (acc @ [c]) rest"
proof -
  consider (quote) "c = CHR 0x22" | (backslash) "c = CHR 0x5C"
    | (short) "c \<in> {CHR 0x08, CHR 0x0C, CHR 0x0A, CHR 0x0D, CHR 0x09}"
    | (control) "c \<notin> {CHR 0x22, CHR 0x5C, CHR 0x08, CHR 0x0C, CHR 0x0A, CHR 0x0D, CHR 0x09}"
        "(of_char c :: nat) < 32"
    | (plain) "c \<notin> {CHR 0x22, CHR 0x5C, CHR 0x08, CHR 0x0C, CHR 0x0A, CHR 0x0D, CHR 0x09}"
        "\<not> (of_char c :: nat) < 32"
    by blast
  then show ?thesis
  proof cases
    case quote
    then show ?thesis by (simp add: escapeChar_def unescape_def)
  next
    case backslash
    then show ?thesis by (simp add: escapeChar_def unescape_def)
  next
    case short
    then show ?thesis by (auto simp add: escapeChar_def unescape_def)
  next
    case control
    then show ?thesis by (simp add: escapeChar_def unicode_control)
  next
    case plain
    then show ?thesis by (simp add: escapeChar_def)
  qed
qed

lemma parse_chars_escaped:
  "parse_chars acc (concat (map escapeChar s) @ CHR 0x22 # rest) = Some (acc @ s, rest)"
proof (induction s arbitrary: acc)
  case Nil
  show ?case by simp
next
  case (Cons c s)
  have "parse_chars acc (concat (map escapeChar (c # s)) @ CHR 0x22 # rest)
      = parse_chars acc (escapeChar c @ (concat (map escapeChar s) @ CHR 0x22 # rest))"
    by simp
  also have "\<dots> = parse_chars (acc @ [c]) (concat (map escapeChar s) @ CHR 0x22 # rest)"
    by (rule parse_chars_escapeChar)
  also have "\<dots> = Some ((acc @ [c]) @ s, rest)" by (rule Cons.IH)
  finally show ?case by simp
qed

lemma parse_chars_quoteJSON:
  "quoteJSON s @ rest = CHR 0x22 # t \<Longrightarrow> parse_chars [] t = Some (s, rest)"
  using parse_chars_escaped [of "[]" s rest] by (simp add: quoteJSON_def)


paragraph \<open>Integers\<close>














paragraph \<open>Values\<close>

lemma numEnd_punct [simp]:
  "numEnd (CHR '','' # r)" "numEnd (CHR '']'' # r)" "numEnd (CHR ''}'' # r)" "numEnd []"
  by (simp_all add: numEnd_def is_digit_def)










lemma skip_ws_punct [simp]:
  "skip_ws (CHR '','' # r) = CHR '','' # r" "skip_ws (CHR '']'' # r) = CHR '']'' # r"
  "skip_ws (CHR ''}'' # r) = CHR ''}'' # r" "skip_ws (CHR '':'' # r) = CHR '':'' # r"
  "skip_ws (CHR 0x22 # r) = CHR 0x22 # r" "skip_ws [] = []"
  by (simp_all add: skip_ws_def is_ws_def)










paragraph \<open>Reports\<close>












subsection \<open>analyzePdf and the catch clauses\<close>

lemma analyzePdf_Inr_iff:
  "analyzePdf parse ai base64Pdf = Inr j \<longleftrightarrow> analyzePdf_try parse ai base64Pdf = Inr j"
  by (simp add: analyzePdf_def split: sum.split)

lemma analyzePdf_Inl_iff:
  "analyzePdf parse ai base64Pdf = Inl e \<longleftrightarrow>
     e = Error ''Failed to analyze the PDF. Please try again.''
     \<and> (\<exists>e'. analyzePdf_try parse ai base64Pdf = Inl e')"
  by (auto simp add: analyzePdf_def split: sum.split)

lemma analyzePdf_try_reply:
  assumes "ai (AnalyzeRequest base64Pdf) = Inr response"
  shows "analyzePdf_try parse ai base64Pdf =
           (case response_text response of
              None \<Rightarrow> Inl (Error ''No response text received from Gemini.'')
            | Some t \<Rightarrow>
                if t = [] then Inl (Error ''No response text received from Gemini.'') else parse t)"
  using assms by (simp add: analyzePdf_try_def)

text \<open>
  Claim C1, as amended. \<^verbatim>\<open>analyzePdf\<close> checks no field. Given a reply of the service, it
  fails exactly when the reply has no text, the text is empty or the parser rejects it,
  always with the one fixed message; every text the parser accepts is returned as the
  report, as parsed, whichever fields it has.
\<close>

theorem analyzePdf_accepts_what_parses:
  "ai (AnalyzeRequest base64Pdf) = Inr response \<longrightarrow>
     ((\<exists>e. analyzePdf parse ai base64Pdf = Inl e) \<longleftrightarrow>
        (response_text response = None \<or> response_text response = Some []
         \<or> (\<exists>t e. response_text response = Some t \<and> parse t = Inl e)))
     \<and> (\<forall>e. analyzePdf parse ai base64Pdf = Inl e \<longrightarrow>
           e = Error ''Failed to analyze the PDF. Please try again.'')
     \<and> (\<forall>t j. response_text response = Some t \<and> t \<noteq> [] \<and> parse t = Inr j \<longrightarrow>
           analyzePdf parse ai base64Pdf = Inr j)"
proof (intro impI conjI allI)
  assume r: "ai (AnalyzeRequest base64Pdf) = Inr response"
  note body = analyzePdf_try_reply [of ai base64Pdf response parse, OF r]
  show "(\<exists>e. analyzePdf parse ai base64Pdf = Inl e) \<longleftrightarrow>
        (response_text response = None \<or> response_text response = Some []
         \<or> (\<exists>t e. response_text response = Some t \<and> parse t = Inl e))"
  proof (cases "response_text response")
    case None
    then show ?thesis by (simp add: analyzePdf_Inl_iff body)
  next
    case (Some t)
    then show ?thesis
      by (cases "parse t") (auto simp add: analyzePdf_Inl_iff body)
  qed
  { fix e assume "analyzePdf parse ai base64Pdf = Inl e"
    then show "e = Error ''Failed to analyze the PDF. Please try again.''"
      by (simp add: analyzePdf_Inl_iff) }
  { fix t j assume "response_text response = Some t \<and> t \<noteq> [] \<and> parse t = Inr j"
    then show "analyzePdf parse ai base64Pdf = Inr j"
      by (simp add: analyzePdf_Inr_iff body) }
qed

lemmas json_eval = JSON_parse_def skip_ws_def is_ws_def parse_number_def is_digit_def
  digit_value_def unescape_def quoted_def safeInteger_def

lemma JSON_parse_missingSpecsText: "JSON_parse missingSpecsText = Inr missingSpecsValue"
  by (simp add: missingSpecsText_def missingSpecsValue_def json_eval)


lemma missingSpecsText_not_empty: "missingSpecsText \<noteq> []"
  by (simp add: missingSpecsText_def)


lemma analyzePdf_textReply:
  "t \<noteq> [] \<Longrightarrow> analyzePdf parse (replyWith (textReply t)) base64Pdf =
     (case parse t of Inl e \<Rightarrow> Inl (Error ''Failed to analyze the PDF. Please try again.'')
      | Inr j \<Rightarrow> Inr j)"
  by (simp add: analyzePdf_def analyzePdf_try_def replyWith_def textReply_def)

text \<open>
  Claim C1 as stated fails: a reply whose JSON lacks \<^verbatim>\<open>specs\<close> is returned to the caller
  as the report.
\<close>

theorem missing_field_counterexample:
  "missingRequired missingSpecsValue
   \<and> field ''specs'' missingSpecsValue = None
   \<and> analyzePdf JSON_parse (replyWith (textReply missingSpecsText)) ''JVBERi0xLjQ='' = Inr missingSpecsValue"
proof -
  have "missingRequired missingSpecsValue" "field ''specs'' missingSpecsValue = None"
    by (simp_all add: missingRequired_def requiredFields_def missingSpecsValue_def field_def)
  moreover have "analyzePdf JSON_parse (replyWith (textReply missingSpecsText)) ''JVBERi0xLjQ=''
      = Inr missingSpecsValue"
    by (simp add: analyzePdf_textReply missingSpecsText_not_empty JSON_parse_missingSpecsText)
  ultimately show ?thesis by (intro conjI)
qed

theorem analyzePdf_accepts_what_parses_witness:
  "analyzePdf JSON_parse (replyWith (textReply missingSpecsText)) ''JVBERi0xLjQ='' = Inr missingSpecsValue
   \<and> (\<exists>e. analyzePdf JSON_parse (replyWith (textReply [])) ''JVBERi0xLjQ='' = Inl e)"
proof -
  note t = analyzePdf_accepts_what_parses [where ai = "replyWith (textReply missingSpecsText)"
      and base64Pdf = "''JVBERi0xLjQ=''" and response = "textReply missingSpecsText"
      and parse = JSON_parse]
  note u = analyzePdf_accepts_what_parses [where ai = "replyWith (textReply [])"
      and base64Pdf = "''JVBERi0xLjQ=''" and response = "textReply []" and parse = JSON_parse]
  have rt: "replyWith (textReply missingSpecsText) (AnalyzeRequest ''JVBERi0xLjQ='')
      = Inr (textReply missingSpecsText)"
    and ru: "replyWith (textReply []) (AnalyzeRequest ''JVBERi0xLjQ='') = Inr (textReply [])"
    by (simp_all only: replyWith_def)
  have ok: "response_text (textReply missingSpecsText) = Some missingSpecsText
      \<and> missingSpecsText \<noteq> [] \<and> JSON_parse missingSpecsText = Inr missingSpecsValue"
    by (simp add: textReply_def missingSpecsText_not_empty JSON_parse_missingSpecsText)
  have empty: "response_text (textReply []) = None \<or> response_text (textReply []) = Some []
      \<or> (\<exists>t e. response_text (textReply []) = Some t \<and> JSON_parse t = Inl e)"
    by (simp add: textReply_def)
  have "analyzePdf JSON_parse (replyWith (textReply missingSpecsText)) ''JVBERi0xLjQ=''
      = Inr missingSpecsValue"
    by (rule t [THEN mp, OF rt, THEN conjunct2, THEN conjunct2, THEN spec, THEN spec, THEN mp, OF ok])
  moreover have "\<exists>e. analyzePdf JSON_parse (replyWith (textReply [])) ''JVBERi0xLjQ='' = Inl e"
    by (rule u [THEN mp, OF ru, THEN conjunct1, THEN iffD2, OF empty])
  ultimately show ?thesis by (intro conjI)
qed




text \<open>
  Claim C6, as amended. Every failure inside \<^verbatim>\<open>analyzePdf\<close> (the call throws, the reply has
  no text, the parser throws) leaves as the one fixed error, and a value is returned only
  when the whole body succeeded. \<^verbatim>\<open>generateImage\<close> and \<^verbatim>\<open>editImage\<close> rethrow what they caught:
  their outcome is that of their body, so an error of the service reaches the caller
  unchanged.
\<close>

theorem adapter_failures:
  "(analyzePdf_try parse ai base64Pdf = Inl e \<longrightarrow>
      analyzePdf parse ai base64Pdf = Inl (Error ''Failed to analyze the PDF. Please try again.''))
   \<and> (ai (AnalyzeRequest base64Pdf) = Inl e \<longrightarrow>
      analyzePdf parse ai base64Pdf = Inl (Error ''Failed to analyze the PDF. Please try again.''))
   \<and> (analyzePdf parse ai base64Pdf = Inr j \<longleftrightarrow> analyzePdf_try parse ai base64Pdf = Inr j)
   \<and> generateImage ai prompt size' = generateImage_try ai prompt size'
   \<and> editImage ai base64Image mime prompt' = editImage_try ai base64Image mime prompt'
   \<and> (ai (GenerateRequest prompt size') = Inl e \<longrightarrow> generateImage ai prompt size' = Inl e)
   \<and> (ai (EditRequest base64Image mime prompt') = Inl e \<longrightarrow>
        editImage ai base64Image mime prompt' = Inl e)"
proof (intro conjI impI)
  show "analyzePdf parse ai base64Pdf = Inl (Error ''Failed to analyze the PDF. Please try again.'')"
    if "analyzePdf_try parse ai base64Pdf = Inl e"
    using that by (simp add: analyzePdf_def)
  show "analyzePdf parse ai base64Pdf = Inl (Error ''Failed to analyze the PDF. Please try again.'')"
    if "ai (AnalyzeRequest base64Pdf) = Inl e"
    using that by (simp add: analyzePdf_def analyzePdf_try_def)
  show "analyzePdf parse ai base64Pdf = Inr j \<longleftrightarrow> analyzePdf_try parse ai base64Pdf = Inr j"
    by (rule analyzePdf_Inr_iff)
  show g: "generateImage ai prompt size' = generateImage_try ai prompt size'"
    by (simp add: generateImage_def split: sum.split)
  show e: "editImage ai base64Image mime prompt' = editImage_try ai base64Image mime prompt'"
    by (simp add: editImage_def split: sum.split)
  show "generateImage ai prompt size' = Inl e" if "ai (GenerateRequest prompt size') = Inl e"
    using that by (simp add: g generateImage_try_def)
  show "editImage ai base64Image mime prompt' = Inl e"
    if "ai (EditRequest base64Image mime prompt') = Inl e"
    using that by (simp add: e editImage_try_def)
qed

text \<open>
  Claim C6 as stated fails for the image functions: the error of the service is what
  \<^verbatim>\<open>generateImage\<close> and \<^verbatim>\<open>editImage\<close> throw, and a reply without image gives another message.
\<close>

theorem rethrown_error_counterexample:
  "generateImage (failWith (Error ''fetch failed'')) ''a red kite'' Size1K = Inl (Error ''fetch failed'')
   \<and> generateImage (replyWith (partsReply [captionPart])) ''a red kite'' Size1K
       = Inl (Error ''No image generated in response.'')
   \<and> editImage (failWith (Error ''fetch failed'')) ''iVBORw0KGgo='' ''image/png'' ''make it blue''
       = Inl (Error ''fetch failed'')"
  by (simp add: generateImage_def generateImage_try_def editImage_def editImage_try_def
      failWith_def replyWith_def replyParts_partsReply captionPart_def)

theorem adapter_failures_witness:
  "analyzePdf JSON_parse (failWith (Error ''fetch failed'')) ''JVBERi0xLjQ=''
     = Inl (Error ''Failed to analyze the PDF. Please try again.'')
   \<and> generateImage (failWith (Error ''fetch failed'')) ''a red kite'' Size1K = Inl (Error ''fetch failed'')
   \<and> editImage (failWith (Error ''fetch failed'')) ''iVBORw0KGgo='' ''image/png'' ''make it blue''
       = Inl (Error ''fetch failed'')"
proof -
  note t = adapter_failures [where ai = "failWith (Error ''fetch failed'')" and parse = JSON_parse
      and base64Pdf = "''JVBERi0xLjQ=''" and e = "Error ''fetch failed''" and prompt = "''a red kite''"
      and size' = Size1K and base64Image = "''iVBORw0KGgo=''" and mime = "''image/png''"
      and prompt' = "''make it blue''"]
  have a: "failWith (Error ''fetch failed'') (AnalyzeRequest ''JVBERi0xLjQ='') = Inl (Error ''fetch failed'')"
    and g: "failWith (Error ''fetch failed'') (GenerateRequest ''a red kite'' Size1K)
      = Inl (Error ''fetch failed'')"
    and e: "failWith (Error ''fetch failed'') (EditRequest ''iVBORw0KGgo='' ''image/png'' ''make it blue'')
      = Inl (Error ''fetch failed'')"
    by (simp_all only: failWith_def)
  have "analyzePdf JSON_parse (failWith (Error ''fetch failed'')) ''JVBERi0xLjQ=''
     = Inl (Error ''Failed to analyze the PDF. Please try again.'')"
    by (rule t [THEN conjunct2, THEN conjunct1, THEN mp, OF a])
  moreover have "generateImage (failWith (Error ''fetch failed'')) ''a red kite'' Size1K
      = Inl (Error ''fetch failed'')"
    by (rule t [THEN conjunct2, THEN conjunct2, THEN conjunct2, THEN conjunct2, THEN conjunct2,
          THEN conjunct1, THEN mp, OF g])
  moreover have "editImage (failWith (Error ''fetch failed'')) ''iVBORw0KGgo='' ''image/png''
      ''make it blue'' = Inl (Error ''fetch failed'')"
    by (rule t [THEN conjunct2, THEN conjunct2, THEN conjunct2, THEN conjunct2, THEN conjunct2,
          THEN conjunct2, THEN mp, OF e])
  ultimately show ?thesis by (intro conjI)
qed

section \<open>Calls in flight\<close>

subsection \<open>Rendering\<close>

lemmas shows_defs = showsFileUpload_def showsErrorBox_def showsGenerator_def showsEditor_def
  mainView_def dashboardView_def gateOpen_def hasReport_def hasError_def

lemma render_fields [simp]:
  "activeTab (render s) = activeTab s" "hasApiKey (render s) = hasApiKey s"
  "isCheckingKey (render s) = isCheckingKey s" "file' (render s) = file' s"
  "isAnalyzing (render s) = isAnalyzing s" "report (render s) = report s"
  "error (render s) = error s" "pending (render s) = pending s"
  by (simp_all add: render_def renderFileUpload_def renderGenerator_def renderEditor_def
      split: option.split)

lemma mounts_render: "mounts s \<le> mounts (render s)"
  by (simp add: render_def renderFileUpload_def renderGenerator_def renderEditor_def
      split: option.split)

lemma shows_render [simp]: "showsFileUpload (render s) = showsFileUpload s"
  by (simp add: shows_defs)

lemma fileUpload_render:
  "fileUpload (render s) =
     (if showsFileUpload s then
        (case fileUpload s of None \<Rightarrow> Some initialFileUpload | Some u \<Rightarrow> Some u)
      else None)"
  by (simp add: render_def renderFileUpload_def renderGenerator_def renderEditor_def
      split: option.split)

lemma generator_render:
  "generator (render s) =
     (if showsGenerator s then
        (case generator s of None \<Rightarrow> Some (mounts s, initialGenerator) | Some g \<Rightarrow> Some g)
      else None)"
  by (simp add: render_def renderFileUpload_def renderGenerator_def renderEditor_def shows_defs
      split: option.split)

lemma editor_render:
  "editor (render s) =
     (if showsEditor s then
        (case editor s of
           None \<Rightarrow> Some (if showsGenerator s \<and> generator s = None then Suc (mounts s) else mounts s,
                     initialEditor)
         | Some e \<Rightarrow> Some e)
      else None)"
  by (simp add: render_def renderFileUpload_def renderGenerator_def renderEditor_def shows_defs
      split: option.split)

lemma mounts_render_eq:
  "mounts (render s) =
     mounts s + (if showsGenerator s \<and> generator s = None then 1 else 0)
       + (if showsEditor s \<and> editor s = None then 1 else 0)"
  by (simp add: render_def renderFileUpload_def renderGenerator_def renderEditor_def shows_defs
      split: option.split)

lemma uploadRendered_render: "uploadRendered (render s)"
  by (simp add: uploadRendered_def fileUpload_render)

lemma analysisCalls_render: "analysisCalls (render s) = analysisCalls s"
  by (simp add: analysisCalls_def)

lemma generatorCalls_render:
  assumes "generatorCalls s"
  shows "generatorCalls (render s)"
proof -
  from assms have mounted: "k < mounts s \<and> count (pending s) (GenerateCall k) = (if isGenerating g then 1 else 0)"
    if "generator s = Some (k, g)" for k g
    using that unfolding generatorCalls_def by blast
  from assms have known: "k < mounts s" if "GenerateCall k \<in># pending s" for k
    using that unfolding generatorCalls_def by blast
  have m: "mounts s \<le> mounts (render s)" by (rule mounts_render)
  show ?thesis
    unfolding generatorCalls_def
  proof (rule conjI; intro allI impI)
    fix k g assume "generator (render s) = Some (k, g)"
    then consider (old) "generator s = Some (k, g)"
      | (new) "generator s = None" "k = mounts s" "g = initialGenerator" "showsGenerator s"
      by (auto simp add: generator_render split: if_splits option.splits)
    then show "k < mounts (render s)
        \<and> count (pending (render s)) (GenerateCall k) = (if isGenerating g then 1 else 0)"
    proof cases
      case old
      with mounted [of k g] m show ?thesis by auto
    next
      case new
      have "GenerateCall (mounts s) \<notin># pending s" using known [of "mounts s"] by auto
      then have "count (pending s) (GenerateCall (mounts s)) = 0" by (simp add: not_in_iff)
      moreover have "mounts s < mounts (render s)" using new by (simp add: mounts_render_eq)
      ultimately show ?thesis using new by (simp add: initialGenerator_def)
    qed
  next
    fix k assume "GenerateCall k \<in># pending (render s)"
    then show "k < mounts (render s)" using known [of k] m by simp
  qed
qed

lemma editorCalls_render:
  assumes "editorCalls s"
  shows "editorCalls (render s)"
proof -
  from assms have mounted: "k < mounts s \<and> count (pending s) (EditCall k) = (if isProcessing e then 1 else 0)"
    if "editor s = Some (k, e)" for k e
    using that unfolding editorCalls_def by blast
  from assms have known: "k < mounts s" if "EditCall k \<in># pending s" for k
    using that unfolding editorCalls_def by blast
  have m: "mounts s \<le> mounts (render s)" by (rule mounts_render)
  show ?thesis
    unfolding editorCalls_def
  proof (rule conjI; intro allI impI)
    fix k e assume "editor (render s) = Some (k, e)"
    then consider (old) "editor s = Some (k, e)"
      | (new) "editor s = None" "mounts s \<le> k" "k < mounts (render s)" "e = initialEditor"
      by (auto simp add: editor_render mounts_render_eq split: if_splits option.splits)
    then show "k < mounts (render s)
        \<and> count (pending (render s)) (EditCall k) = (if isProcessing e then 1 else 0)"
    proof cases
      case old
      with mounted [of k e] m show ?thesis by auto
    next
      case new
      have "EditCall k \<notin># pending s" using known [of k] new by auto
      then have "count (pending s) (EditCall k) = 0" by (simp add: not_in_iff)
      then show ?thesis using new by (simp add: initialEditor_def)
    qed
  next
    fix k assume "EditCall k \<in># pending (render s)"
    then show "k < mounts (render s)" using known [of k] m by simp
  qed
qed

subsection \<open>Handlers\<close>

lemma selectFiles_Nil: "selectFiles (u, []) s = s\<lparr>fileUpload := Some u\<rparr>"
  by (simp add: selectFiles_def)

lemma selectFiles_one:
  "selectFiles (u, [f]) s = App_handleFileSelect_call f (s\<lparr>fileUpload := Some u\<rparr>)"
  by (simp add: selectFiles_def)

lemma validateAndUpload_calls:
  "snd (validateAndUpload f u) = [] \<or> snd (validateAndUpload f u) = [f]"
  by (simp add: validateAndUpload_def)

lemma handleDrop_calls:
  "snd (handleDrop files u) = [] \<or> (\<exists>f. snd (handleDrop files u) = [f])"
  using validateAndUpload_calls by (auto simp add: handleDrop_def Let_def split: list.split)

lemma handleFileInput_calls:
  "snd (handleFileInput files u) = [] \<or> (\<exists>f. snd (handleFileInput files u) = [f])"
  using validateAndUpload_calls
  by (auto simp add: handleFileInput_def Let_def split: list.split option.split)

lemma analysisCalls_selectFiles:
  assumes "analysisCalls s" and "uploadRendered s" and "fileUpload s \<noteq> None"
    and "snd r = [] \<or> (\<exists>f. snd r = [f])"
  shows "analysisCalls (selectFiles r s)"
proof -
  from assms have "file' s = None" by (simp add: uploadRendered_def showsFileUpload_def)
  with assms have idle: "\<not> isAnalyzing s" "count (pending s) AnalyzeCall = 0"
    by (auto simp add: analysisCalls_def)
  obtain u calls where r: "r = (u, calls)" by (cases r)
  from assms(4) r consider "calls = []" | f where "calls = [f]" by auto
  then show ?thesis
  proof cases
    case 1
    with r assms(1) show ?thesis by (simp add: selectFiles_Nil analysisCalls_def)
  next
    case 2
    with r idle show ?thesis
      by (simp add: selectFiles_one analysisCalls_def App_handleFileSelect_call_def)
  qed
qed

lemma analysisCalls_handle:
  assumes "analysisCalls s" and "uploadRendered s"
  shows "analysisCalls (handle ev s)"
proof (cases ev)
  case (Drop files)
  with assms show ?thesis
    by (auto simp add: analysisCalls_selectFiles handleDrop_calls split: option.split)
next
  case (FileInput files)
  with assms show ?thesis
    by (auto simp add: analysisCalls_selectFiles handleFileInput_calls split: option.split)
next
  case Reset
  with assms show ?thesis
    by (auto simp add: analysisCalls_def handleReset_def showsErrorBox_def dashboardView_def)
next
  case (AnalysisSettled r)
  with assms show ?thesis
    by (auto simp add: analysisCalls_def App_handleFileSelect_settled_def not_in_iff
        split: sum.split if_splits)
next
  case Generate
  with assms show ?thesis
    by (auto simp add: analysisCalls_def handleGenerate_call_def split: option.split)
next
  case Edit
  with assms show ?thesis
    by (auto simp add: analysisCalls_def handleEdit_call_def split: option.split)
next
  case (GenerationSettled k r)
  with assms show ?thesis
    by (auto simp add: analysisCalls_def Let_def split: option.split)
next
  case (EditSettled k r)
  with assms show ?thesis
    by (auto simp add: analysisCalls_def Let_def split: option.split)
qed (use assms in \<open>auto simp add: analysisCalls_def split: option.split\<close>)


lemma selectFiles_others [simp]:
  "generator (selectFiles r s) = generator s" "editor (selectFiles r s) = editor s"
  "mounts (selectFiles r s) = mounts s"
  "count (pending (selectFiles r s)) (GenerateCall k) = count (pending s) (GenerateCall k)"
  "count (pending (selectFiles r s)) (EditCall k) = count (pending s) (EditCall k)"
proof -
  have "generator (foldl (\<lambda>s' f. App_handleFileSelect_call f s') t fs) = generator t
      \<and> editor (foldl (\<lambda>s' f. App_handleFileSelect_call f s') t fs) = editor t
      \<and> mounts (foldl (\<lambda>s' f. App_handleFileSelect_call f s') t fs) = mounts t
      \<and> count (pending (foldl (\<lambda>s' f. App_handleFileSelect_call f s') t fs)) (GenerateCall k)
          = count (pending t) (GenerateCall k)
      \<and> count (pending (foldl (\<lambda>s' f. App_handleFileSelect_call f s') t fs)) (EditCall k)
          = count (pending t) (EditCall k)" for t fs
    by (induction fs arbitrary: t) (simp_all add: App_handleFileSelect_call_def)
  from this [of "s\<lparr>fileUpload := Some (fst r)\<rparr>" "snd r"]
  show "generator (selectFiles r s) = generator s" "editor (selectFiles r s) = editor s"
    "mounts (selectFiles r s) = mounts s"
    "count (pending (selectFiles r s)) (GenerateCall k) = count (pending s) (GenerateCall k)"
    "count (pending (selectFiles r s)) (EditCall k) = count (pending s) (EditCall k)"
    by (simp_all add: selectFiles_def)
qed

lemma generatorCalls_cong:
  assumes "generatorCalls s" and "generator t = generator s" and "mounts t = mounts s"
    and "\<And>k. count (pending t) (GenerateCall k) = count (pending s) (GenerateCall k)"
  shows "generatorCalls t"
  using assms unfolding generatorCalls_def by (simp add: count_greater_zero_iff [symmetric] del: count_greater_zero_iff)

lemma editorCalls_cong:
  assumes "editorCalls s" and "editor t = editor s" and "mounts t = mounts s"
    and "\<And>k. count (pending t) (EditCall k) = count (pending s) (EditCall k)"
  shows "editorCalls t"
  using assms unfolding editorCalls_def by (simp add: count_greater_zero_iff [symmetric] del: count_greater_zero_iff)

lemma generatorCalls_handle:
  assumes "generatorCalls s"
  shows "generatorCalls (handle ev s)"
proof -
  from assms have mounted: "k < mounts s \<and> count (pending s) (GenerateCall k) = (if isGenerating g then 1 else 0)"
    if "generator s = Some (k, g)" for k g
    using that unfolding generatorCalls_def by blast
  from assms have known: "k < mounts s" if "GenerateCall k \<in># pending s" for k
    using that unfolding generatorCalls_def by blast
  show ?thesis
  proof (cases ev)
    case (SetPrompt p)
    show ?thesis
    proof (cases "generator s")
      case None
      with SetPrompt assms show ?thesis by simp
    next
      case (Some kg)
      obtain k g where kg: "kg = (k, g)" by (cases kg)
      with Some SetPrompt mounted [of k g] known show ?thesis
        by (simp add: generatorCalls_def)
    qed
  next
    case (SetSize z)
    show ?thesis
    proof (cases "generator s")
      case None
      with SetSize assms show ?thesis by simp
    next
      case (Some kg)
      obtain k g where kg: "kg = (k, g)" by (cases kg)
      with Some SetSize mounted [of k g] known show ?thesis
        by (simp add: generatorCalls_def)
    qed
  next
    case Generate
    show ?thesis
    proof (cases "generator s")
      case None
      with Generate assms show ?thesis by simp
    next
      case (Some kg)
      obtain k g where kg: "kg = (k, g)" by (cases kg)
      show ?thesis
      proof (cases "generateEnabled g")
        case False
        with Some kg Generate assms show ?thesis by simp
      next
        case True
        then have idle: "\<not> isGenerating g" "trim (gen_prompt g) \<noteq> []"
          by (simp_all add: generateEnabled_def)
        with mounted [of k g] Some kg have "k < mounts s" "count (pending s) (GenerateCall k) = 0"
          by simp_all
        with Some kg Generate True idle known show ?thesis
          by (auto simp add: generatorCalls_def handleGenerate_call_def)
      qed
    qed
  next
    case (GenerationSettled k r)
    show ?thesis
    proof (cases "GenerateCall k \<in># pending s")
      case False
      with GenerationSettled assms show ?thesis by simp
    next
      case True
      have less: "k' < mounts s" if "GenerateCall k' \<in># pending s - {#GenerateCall k#}" for k'
        using that known [of k'] by (meson in_diffD)
      show ?thesis
      proof (cases "generator s")
        case None
        with GenerationSettled True less show ?thesis
          by (simp add: generatorCalls_def)
      next
        case (Some kg)
        obtain k' g where kg: "kg = (k', g)" by (cases kg)
        show ?thesis
        proof (cases "k' = k")
          case same: True
          have "0 < count (pending s) (GenerateCall k)" using True by simp
          with mounted [of k g] Some kg same
          have "isGenerating g" "count (pending s) (GenerateCall k) = 1"
            by (auto split: if_splits)
          with GenerationSettled True Some kg same mounted [of k g] less show ?thesis
            by (auto simp add: generatorCalls_def handleGenerate_settled_def split: sum.split)
        next
          case False
          with GenerationSettled True Some kg mounted [of k' g] less show ?thesis
            by (auto simp add: generatorCalls_def)
        qed
      qed
    qed
  next
    case (Drop files)
    with assms show ?thesis
      by (cases "fileUpload s") (auto intro: generatorCalls_cong [of s])
  next
    case (FileInput files)
    with assms show ?thesis
      by (cases "fileUpload s") (auto intro: generatorCalls_cong [of s])
  next
    case (AnalysisSettled r)
    with assms show ?thesis
      by (auto intro!: generatorCalls_cong [of s] simp add: App_handleFileSelect_settled_def
          split: sum.split)
  next
    case Edit
    with assms show ?thesis
      by (auto intro!: generatorCalls_cong [of s] simp add: handleEdit_call_def
          split: option.split)
  next
    case (EditSettled k r)
    with assms show ?thesis
      by (auto intro!: generatorCalls_cong [of s] simp add: Let_def split: option.split)
  next
    case Reset
    with assms show ?thesis
      by (auto intro!: generatorCalls_cong [of s] simp add: handleReset_def)
  qed (use assms in \<open>auto intro!: generatorCalls_cong [of s] split: option.split\<close>)
qed


lemma editorCalls_handle:
  assumes "editorCalls s"
  shows "editorCalls (handle ev s)"
proof -
  from assms have mounted: "k < mounts s \<and> count (pending s) (EditCall k) = (if isProcessing e then 1 else 0)"
    if "editor s = Some (k, e)" for k e
    using that unfolding editorCalls_def by blast
  from assms have known: "k < mounts s" if "EditCall k \<in># pending s" for k
    using that unfolding editorCalls_def by blast
  have same_flag: "editorCalls (s\<lparr>editor := Some (k, e')\<rparr>)"
    if "editor s = Some (k, e)" and "isProcessing e' = isProcessing e" for k e e'
    using that mounted [of k e] known by (simp add: editorCalls_def)
  show ?thesis
  proof (cases ev)
    case (EditorFileInput files)
    show ?thesis
    proof (cases "editor s")
      case None
      with EditorFileInput assms show ?thesis by simp
    next
      case (Some ke)
      obtain k e where ke: "ke = (k, e)" by (cases ke)
      have "isProcessing (Editor_handleFileSelect files e) = isProcessing e"
        by (simp add: Editor_handleFileSelect_def split: option.split list.split)
      with Some ke EditorFileInput assms same_flag [of k e] show ?thesis by simp
    qed
  next
    case (SetEditPrompt p)
    show ?thesis
    proof (cases "editor s")
      case None
      with SetEditPrompt assms show ?thesis by simp
    next
      case (Some ke)
      obtain k e where ke: "ke = (k, e)" by (cases ke)
      with Some SetEditPrompt assms same_flag [of k e] show ?thesis by simp
    qed
  next
    case EditorReset
    show ?thesis
    proof (cases "editor s")
      case None
      with EditorReset assms show ?thesis by simp
    next
      case (Some ke)
      obtain k e where ke: "ke = (k, e)" by (cases ke)
      have "isProcessing (reset e) = isProcessing e" by (simp add: reset_def)
      with Some ke EditorReset assms same_flag [of k e] show ?thesis by simp
    qed
  next
    case Edit
    show ?thesis
    proof (cases "editor s")
      case None
      with Edit assms show ?thesis by simp
    next
      case (Some ke)
      obtain k e where ke: "ke = (k, e)" by (cases ke)
      show ?thesis
      proof (cases "editEnabled e")
        case False
        with Some ke Edit assms show ?thesis by simp
      next
        case True
        then have idle: "\<not> isProcessing e" "trim (edit_prompt e) \<noteq> []" "originalFile e \<noteq> None"
          by (simp_all add: editEnabled_def)
        with mounted [of k e] Some ke have "k < mounts s" "count (pending s) (EditCall k) = 0"
          by simp_all
        with Some ke Edit True idle known show ?thesis
          by (auto simp add: editorCalls_def handleEdit_call_def)
      qed
    qed
  next
    case (EditSettled k r)
    show ?thesis
    proof (cases "EditCall k \<in># pending s")
      case False
      with EditSettled assms show ?thesis by simp
    next
      case True
      have less: "k' < mounts s" if "EditCall k' \<in># pending s - {#EditCall k#}" for k'
        using that known [of k'] by (meson in_diffD)
      show ?thesis
      proof (cases "editor s")
        case None
        with EditSettled True less show ?thesis
          by (simp add: editorCalls_def)
      next
        case (Some ke)
        obtain k' e where ke: "ke = (k', e)" by (cases ke)
        show ?thesis
        proof (cases "k' = k")
          case same: True
          have "0 < count (pending s) (EditCall k)" using True by simp
          with mounted [of k e] Some ke same
          have "isProcessing e" "count (pending s) (EditCall k) = 1"
            by (auto split: if_splits)
          with EditSettled True Some ke same mounted [of k e] less show ?thesis
            by (auto simp add: editorCalls_def handleEdit_settled_def split: sum.split)
        next
          case False
          with EditSettled True Some ke mounted [of k' e] less show ?thesis
            by (auto simp add: editorCalls_def)
        qed
      qed
    qed
  next
    case (Drop files)
    with assms show ?thesis
      by (cases "fileUpload s") (auto intro: editorCalls_cong [of s])
  next
    case (FileInput files)
    with assms show ?thesis
      by (cases "fileUpload s") (auto intro: editorCalls_cong [of s])
  next
    case (AnalysisSettled r)
    with assms show ?thesis
      by (auto intro!: editorCalls_cong [of s] simp add: App_handleFileSelect_settled_def
          split: sum.split)
  next
    case Generate
    with assms show ?thesis
      by (auto intro!: editorCalls_cong [of s] simp add: handleGenerate_call_def
          split: option.split)
  next
    case (GenerationSettled k r)
    with assms show ?thesis
      by (auto intro!: editorCalls_cong [of s] simp add: Let_def split: option.split)
  next
    case Reset
    with assms show ?thesis
      by (auto intro!: editorCalls_cong [of s] simp add: handleReset_def)
  qed (use assms in \<open>auto intro!: editorCalls_cong [of s] split: option.split\<close>)
qed

subsection \<open>Reachable states\<close>

lemma calls_step:
  assumes "analysisCalls s \<and> generatorCalls s \<and> editorCalls s \<and> uploadRendered s"
  shows "analysisCalls (step ev s) \<and> generatorCalls (step ev s) \<and> editorCalls (step ev s)
    \<and> uploadRendered (step ev s)"
  using assms
  by (simp add: step_def analysisCalls_render analysisCalls_handle generatorCalls_render
      generatorCalls_handle editorCalls_render editorCalls_handle uploadRendered_render)

lemma calls_initialApp:
  "analysisCalls initialApp \<and> generatorCalls initialApp \<and> editorCalls initialApp
    \<and> uploadRendered initialApp"
  by (simp add: analysisCalls_def generatorCalls_def editorCalls_def uploadRendered_def
      initialApp_def)

lemma calls_run:
  assumes "analysisCalls s \<and> generatorCalls s \<and> editorCalls s \<and> uploadRendered s"
  shows "analysisCalls (run evs s) \<and> generatorCalls (run evs s) \<and> editorCalls (run evs s)
    \<and> uploadRendered (run evs s)"
  using assms
proof (induction evs arbitrary: s)
  case Nil
  then show ?case by (simp add: run_def)
next
  case (Cons ev evs)
  from Cons.prems have "analysisCalls (step ev s) \<and> generatorCalls (step ev s)
      \<and> editorCalls (step ev s) \<and> uploadRendered (step ev s)"
    by (rule calls_step)
  then have "analysisCalls (run evs (step ev s)) \<and> generatorCalls (run evs (step ev s))
      \<and> editorCalls (run evs (step ev s)) \<and> uploadRendered (run evs (step ev s))"
    by (rule Cons.IH)
  then show ?case by (simp add: run_def)
qed

text \<open>No event but an action on a trigger adds a call, and such an action adds at most one.\<close>

lemma pending_selectFiles:
  assumes "snd r = [] \<or> (\<exists>f. snd r = [f])"
  shows "pending (selectFiles r s) = pending s \<or> pending (selectFiles r s) = add_mset AnalyzeCall (pending s)"
proof -
  obtain u calls where r: "r = (u, calls)" by (cases r)
  from assms r consider "calls = []" | f where "calls = [f]" by auto
  then show ?thesis
  proof cases
    case 1
    with r show ?thesis by (simp add: selectFiles_Nil)
  next
    case 2
    with r show ?thesis by (simp add: selectFiles_one App_handleFileSelect_call_def)
  qed
qed

lemma pending_handle:
  "(isTrigger ev \<longrightarrow> size (pending (handle ev s)) \<le> Suc (size (pending s)))
   \<and> (\<not> isTrigger ev \<longrightarrow> pending (handle ev s) \<subseteq># pending s)"
proof (cases ev)
  case (Drop files)
  show ?thesis
  proof (cases "fileUpload s")
    case None
    with Drop show ?thesis by simp
  next
    case (Some u)
    with Drop pending_selectFiles [OF handleDrop_calls, of files u s] show ?thesis by auto
  qed
next
  case (FileInput files)
  show ?thesis
  proof (cases "fileUpload s")
    case None
    with FileInput show ?thesis by simp
  next
    case (Some u)
    with FileInput pending_selectFiles [OF handleFileInput_calls, of files u s] show ?thesis by auto
  qed
next
  case Generate
  then show ?thesis by (auto simp add: handleGenerate_call_def split: option.split)
next
  case Edit
  then show ?thesis by (auto simp add: handleEdit_call_def split: option.split)
next
  case (AnalysisSettled r)
  then show ?thesis by (auto simp add: App_handleFileSelect_settled_def split: sum.split)
next
  case (GenerationSettled k r)
  then show ?thesis by (auto simp add: Let_def split: option.split)
next
  case (EditSettled k r)
  then show ?thesis by (auto simp add: Let_def split: option.split)
next
  case Reset
  then show ?thesis by (simp add: handleReset_def)
qed (auto split: option.split)

subsection \<open>The upload gate\<close>

lemma run_snoc: "run (evs @ [ev]) s = step ev (run evs s)"
  by (simp add: run_def)

lemma pending_step: "pending (step ev s) = pending (handle ev s)"
  by (simp add: step_def)

lemma file_step: "file' (step ev s) = file' (handle ev s)"
  by (simp add: step_def)

lemma validateAndUpload_rejects:
  assumes "file_type f \<noteq> ''application/pdf'' \<or> 20 * 1024 * 1024 < file_size f"
  shows "snd (validateAndUpload f u) = []"
    and "shownError (fst (validateAndUpload f u)) =
      Some (if file_type f \<noteq> ''application/pdf'' then ''Please upload a PDF file.''
            else ''File size exceeds 20MB limit.'')"
  using assms by (auto simp add: validateAndUpload_def shownError_def)

lemma validateAndUpload_accepts:
  assumes "file_type f = ''application/pdf'' \<and> file_size f \<le> 20 * 1024 * 1024"
  shows "validateAndUpload f u = (u, [f])"
  using assms by (simp add: validateAndUpload_def)

text \<open>
  Claim C4. A file that is not of type \<^verbatim>\<open>application/pdf\<close>, or is larger than 20 * 1024 * 1024
  bytes, is rejected by \<^verbatim>\<open>validateAndUpload\<close>: the component shows its message and
  \<^verbatim>\<open>onFileSelect\<close> is not called, whether the file was dropped or chosen, so that no call is
  added to those in flight. For a PDF within the limit \<^verbatim>\<open>onFileSelect\<close> is called with the
  file, once, and the analysis call is made.
\<close>

theorem upload_gate:
  "(file_type f \<noteq> ''application/pdf'' \<or> 20 * 1024 * 1024 < file_size f \<longrightarrow>
      snd (validateAndUpload f u) = []
      \<and> shownError (fst (validateAndUpload f u)) =
           Some (if file_type f \<noteq> ''application/pdf'' then ''Please upload a PDF file.''
                 else ''File size exceeds 20MB limit.'')
      \<and> snd (handleDrop (f # fs) u) = []
      \<and> snd (handleFileInput (Some (f # fs)) u) = []
      \<and> (fileUpload s = Some u \<longrightarrow>
            pending (step (Drop (f # fs)) s) = pending s
            \<and> pending (step (FileInput (Some (f # fs))) s) = pending s))
   \<and> (file_type f = ''application/pdf'' \<and> file_size f \<le> 20 * 1024 * 1024 \<longrightarrow>
      snd (validateAndUpload f u) = [f]
      \<and> snd (handleDrop (f # fs) u) = [f]
      \<and> snd (handleFileInput (Some (f # fs)) u) = [f]
      \<and> (fileUpload s = Some u \<longrightarrow>
            pending (step (Drop (f # fs)) s) = add_mset AnalyzeCall (pending s)
            \<and> pending (step (FileInput (Some (f # fs))) s) = add_mset AnalyzeCall (pending s)
            \<and> file' (step (Drop (f # fs)) s) = Some f))"
proof (intro conjI impI)
  assume bad: "file_type f \<noteq> ''application/pdf'' \<or> 20 * 1024 * 1024 < file_size f"
  show "snd (validateAndUpload f u) = []" using bad by (rule validateAndUpload_rejects)
  show "shownError (fst (validateAndUpload f u)) =
           Some (if file_type f \<noteq> ''application/pdf'' then ''Please upload a PDF file.''
                 else ''File size exceeds 20MB limit.'')"
    using bad by (rule validateAndUpload_rejects)
  show d: "snd (handleDrop (f # fs) u) = []"
    using bad by (simp add: handleDrop_def validateAndUpload_rejects)
  show i: "snd (handleFileInput (Some (f # fs)) u) = []"
    using bad by (simp add: handleFileInput_def validateAndUpload_rejects)
  { assume "fileUpload s = Some u"
    then show "pending (step (Drop (f # fs)) s) = pending s"
      and "pending (step (FileInput (Some (f # fs))) s) = pending s"
      using d i by (simp_all add: pending_step selectFiles_def) }
next
  assume ok: "file_type f = ''application/pdf'' \<and> file_size f \<le> 20 * 1024 * 1024"
  show "snd (validateAndUpload f u) = [f]" using ok by (simp add: validateAndUpload_accepts)
  show d: "snd (handleDrop (f # fs) u) = [f]"
    using ok by (simp add: handleDrop_def validateAndUpload_accepts)
  show i: "snd (handleFileInput (Some (f # fs)) u) = [f]"
    using ok by (simp add: handleFileInput_def validateAndUpload_accepts)
  { assume "fileUpload s = Some u"
    then show "pending (step (Drop (f # fs)) s) = add_mset AnalyzeCall (pending s)"
      and "pending (step (FileInput (Some (f # fs))) s) = add_mset AnalyzeCall (pending s)"
      and "file' (step (Drop (f # fs)) s) = Some f"
      using d i
      by (simp_all add: pending_step file_step selectFiles_def App_handleFileSelect_call_def) }
qed

lemma run_keyAccepted:
  "run keyAccepted initialApp =
     initialApp\<lparr>hasApiKey := True, isCheckingKey := False, fileUpload := Some initialFileUpload\<rparr>"
  by (simp add: keyAccepted_def run_def step_def render_def renderFileUpload_def
      renderGenerator_def renderEditor_def showsFileUpload_def showsGenerator_def showsEditor_def
      mainView_def dashboardView_def gateOpen_def hasReport_def initialApp_def)

theorem upload_gate_witness:
  "20 * 1024 * 1024 < file_size pdf25
   \<and> shownError (fst (validateAndUpload pdf25 initialFileUpload)) = Some ''File size exceeds 20MB limit.''
   \<and> snd (handleDrop [pdf25] initialFileUpload) = []
   \<and> pending (step (Drop [pdf25]) (run keyAccepted initialApp)) = {#}
   \<and> file_type png1 \<noteq> ''application/pdf''
   \<and> shownError (fst (validateAndUpload png1 initialFileUpload)) = Some ''Please upload a PDF file.''
   \<and> pending (step (FileInput (Some [png1])) (run keyAccepted initialApp)) = {#}
   \<and> file_type pdf5 = ''application/pdf'' \<and> file_size pdf5 \<le> 20 * 1024 * 1024
   \<and> snd (validateAndUpload pdf5 initialFileUpload) = [pdf5]
   \<and> pending (step (Drop [pdf5]) (run keyAccepted initialApp)) = {#AnalyzeCall#}"
proof -
  let ?s = "run keyAccepted initialApp"
  have up: "fileUpload ?s = Some initialFileUpload" and none: "pending ?s = {#}"
    unfolding run_keyAccepted by (simp_all add: initialApp_def)
  have big: "file_type pdf25 \<noteq> ''application/pdf'' \<or> 20 * 1024 * 1024 < file_size pdf25"
    and big': "20 * 1024 * 1024 < file_size pdf25" and pdf: "file_type pdf25 = ''application/pdf''"
    by (simp_all add: pdf25_def)
  have img: "file_type png1 \<noteq> ''application/pdf'' \<or> 20 * 1024 * 1024 < file_size png1"
    and img': "file_type png1 \<noteq> ''application/pdf''"
    by (simp_all add: png1_def)
  have ok: "file_type pdf5 = ''application/pdf'' \<and> file_size pdf5 \<le> 20 * 1024 * 1024"
    by (simp add: pdf5_def)
  note r25 = upload_gate [where f = pdf25 and u = initialFileUpload and fs = "[]" and s = ?s,
      THEN conjunct1, THEN mp, OF big]
  note rpng = upload_gate [where f = png1 and u = initialFileUpload and fs = "[]" and s = ?s,
      THEN conjunct1, THEN mp, OF img]
  note a5 = upload_gate [where f = pdf5 and u = initialFileUpload and fs = "[]" and s = ?s,
      THEN conjunct2, THEN mp, OF ok]
  have "shownError (fst (validateAndUpload pdf25 initialFileUpload)) = Some ''File size exceeds 20MB limit.''"
    using r25 [THEN conjunct2, THEN conjunct1] pdf by simp
  moreover have "snd (handleDrop [pdf25] initialFileUpload) = []"
    by (rule r25 [THEN conjunct2, THEN conjunct2, THEN conjunct1])
  moreover have "pending (step (Drop [pdf25]) ?s) = {#}"
    using r25 [THEN conjunct2, THEN conjunct2, THEN conjunct2, THEN conjunct2, THEN mp, OF up,
        THEN conjunct1] none by simp
  moreover have "shownError (fst (validateAndUpload png1 initialFileUpload)) = Some ''Please upload a PDF file.''"
    using rpng [THEN conjunct2, THEN conjunct1] img' by simp
  moreover have "pending (step (FileInput (Some [png1])) ?s) = {#}"
    using rpng [THEN conjunct2, THEN conjunct2, THEN conjunct2, THEN conjunct2, THEN mp, OF up,
        THEN conjunct2] none by simp
  moreover have "snd (validateAndUpload pdf5 initialFileUpload) = [pdf5]"
    by (rule a5 [THEN conjunct1])
  moreover have "pending (step (Drop [pdf5]) ?s) = {#AnalyzeCall#}"
    using a5 [THEN conjunct2, THEN conjunct2, THEN conjunct2, THEN mp, OF up, THEN conjunct1] none
    by simp
  ultimately show ?thesis using big' img' ok by (intro conjI) simp_all
qed

subsection \<open>One call per mounted trigger\<close>

text \<open>
  Claim C9, as amended. In every state the application reaches: at most one analysis call
  is in flight, and while it is, \<^verbatim>\<open>FileUpload\<close> is not rendered; the mounted generator has at
  most one call of its own in flight, and while it has one, its button is disabled; the
  same holds for the mounted editor. In any state, an event that is not an action on a
  trigger adds no call, so a settled call, failed or not, is not made again by itself, and
  an action on a trigger adds at most one. Calls of a generator or an editor that was
  unmounted in the meantime are not counted against the instance mounted now.
\<close>

theorem one_call_per_mounted_trigger:
  "count (pending (run evs initialApp)) AnalyzeCall \<le> 1
   \<and> (AnalyzeCall \<in># pending (run evs initialApp) \<longrightarrow> fileUpload (run evs initialApp) = None)
   \<and> (\<forall>k g. generator (run evs initialApp) = Some (k, g) \<longrightarrow>
          count (pending (run evs initialApp)) (GenerateCall k) \<le> 1
          \<and> (GenerateCall k \<in># pending (run evs initialApp) \<longrightarrow> \<not> generateEnabled g))
   \<and> (\<forall>k e. editor (run evs initialApp) = Some (k, e) \<longrightarrow>
          count (pending (run evs initialApp)) (EditCall k) \<le> 1
          \<and> (EditCall k \<in># pending (run evs initialApp) \<longrightarrow> \<not> editEnabled e))
   \<and> (\<not> isTrigger ev \<longrightarrow> pending (step ev s) \<subseteq># pending s)
   \<and> (isTrigger ev \<longrightarrow> size (pending (step ev s)) \<le> Suc (size (pending s)))"
proof -
  let ?s = "run evs initialApp"
  have inv: "analysisCalls ?s \<and> generatorCalls ?s \<and> editorCalls ?s \<and> uploadRendered ?s"
    using calls_initialApp by (rule calls_run)
  have a: "count (pending ?s) AnalyzeCall \<le> 1"
    using inv by (simp add: analysisCalls_def)
  have b: "fileUpload ?s = None" if "AnalyzeCall \<in># pending ?s"
  proof -
    have "0 < count (pending ?s) AnalyzeCall" using that by simp
    with inv have "isAnalyzing ?s" by (auto simp add: analysisCalls_def split: if_splits)
    with inv have "file' ?s \<noteq> None" by (simp add: analysisCalls_def)
    then have "\<not> showsFileUpload ?s" by (simp add: showsFileUpload_def)
    with inv show ?thesis by (auto simp add: uploadRendered_def)
  qed
  have g: "count (pending ?s) (GenerateCall k) \<le> 1
      \<and> (GenerateCall k \<in># pending ?s \<longrightarrow> \<not> generateEnabled g)"
    if "generator ?s = Some (k, g)" for k g
  proof -
    from inv that have c: "count (pending ?s) (GenerateCall k) = (if isGenerating g then 1 else 0)"
      unfolding generatorCalls_def by blast
    have "isGenerating g" if "GenerateCall k \<in># pending ?s"
    proof -
      have "0 < count (pending ?s) (GenerateCall k)" using that by simp
      with c show ?thesis by (auto split: if_splits)
    qed
    with c show ?thesis by (auto simp add: generateEnabled_def)
  qed
  have e: "count (pending ?s) (EditCall k) \<le> 1
      \<and> (EditCall k \<in># pending ?s \<longrightarrow> \<not> editEnabled e)"
    if "editor ?s = Some (k, e)" for k e
  proof -
    from inv that have c: "count (pending ?s) (EditCall k) = (if isProcessing e then 1 else 0)"
      unfolding editorCalls_def by blast
    have "isProcessing e" if "EditCall k \<in># pending ?s"
    proof -
      have "0 < count (pending ?s) (EditCall k)" using that by simp
      with c show ?thesis by (auto split: if_splits)
    qed
    with c show ?thesis by (auto simp add: editEnabled_def)
  qed
  have p: "(\<not> isTrigger ev \<longrightarrow> pending (step ev s) \<subseteq># pending s)
      \<and> (isTrigger ev \<longrightarrow> size (pending (step ev s)) \<le> Suc (size (pending s)))"
    using pending_handle [of ev s] by (simp add: pending_step)
  from a b g e p show ?thesis by blast
qed

lemma run_backOnGenerator:
  "generator (run backOnGenerator initialApp) =
     Some (1, initialGenerator\<lparr>gen_prompt := ''a blue kite''\<rparr>)"
  "pending (run backOnGenerator initialApp) = {#GenerateCall 0#}"
  by (code_simp, code_simp)

lemma run_twoGenerations:
  "generator (run twoGenerations initialApp) =
     Some (1, initialGenerator\<lparr>gen_prompt := ''a blue kite'', isGenerating := True\<rparr>)"
  "pending (run twoGenerations initialApp) = {#GenerateCall 0, GenerateCall 1#}"
  by (code_simp, code_simp)

lemma generateEnabled_blue:
  "generateEnabled (initialGenerator\<lparr>gen_prompt := ''a blue kite''\<rparr>)"
  by (simp add: generateEnabled_def initialGenerator_def trim_def isSpace_def)

text \<open>
  Claim C9 as stated fails for image generation: after a call was made, leaving the tab
  and coming back mounts a new generator, whose button is enabled while the first call is
  still in flight, and pressing it puts a second call in flight.
\<close>

theorem two_generations_counterexample:
  "GenerateCall 0 \<in># pending (run backOnGenerator initialApp)
   \<and> (\<exists>k g. generator (run backOnGenerator initialApp) = Some (k, g) \<and> generateEnabled g)
   \<and> pending (run twoGenerations initialApp) = {#GenerateCall 0, GenerateCall 1#}
   \<and> size (pending (run twoGenerations initialApp)) = 2"
  using generateEnabled_blue by (simp add: run_backOnGenerator run_twoGenerations)

lemma run_analysisStarted: "pending (run analysisStarted initialApp) = {#AnalyzeCall#}"
proof -
  have "snd (handleDrop [pdf5] initialFileUpload) = [pdf5]"
    by (simp add: handleDrop_def validateAndUpload_def pdf5_def)
  then show ?thesis
    unfolding analysisStarted_def run_snoc run_keyAccepted
    by (simp add: pending_step selectFiles_def App_handleFileSelect_call_def initialApp_def)
qed

lemmas render_eval = step_def render_def renderFileUpload_def renderGenerator_def renderEditor_def
  showsFileUpload_def showsGenerator_def showsEditor_def mainView_def dashboardView_def
  gateOpen_def hasReport_def

lemma run_Cons: "run (ev # evs) s = run evs (step ev s)"
  by (simp add: run_def)

lemma run_Nil: "run [] s = s"
  by (simp add: run_def)

lemma editor_steps:
  "step (KeyChecked (Some True)) initialApp =
     initialApp\<lparr>hasApiKey := True, isCheckingKey := False, fileUpload := Some initialFileUpload\<rparr>"
  "step (SwitchTab EDITOR)
     (initialApp\<lparr>hasApiKey := True, isCheckingKey := False, fileUpload := Some initialFileUpload\<rparr>) =
     initialApp\<lparr>hasApiKey := True, isCheckingKey := False, activeTab := EDITOR,
       editor := Some (0, initialEditor), mounts := 1\<rparr>"
  "step (EditorFileInput (Some [png1]))
     (initialApp\<lparr>hasApiKey := True, isCheckingKey := False, activeTab := EDITOR,
       editor := Some (0, initialEditor), mounts := 1\<rparr>) =
     initialApp\<lparr>hasApiKey := True, isCheckingKey := False, activeTab := EDITOR,
       editor := Some (0, initialEditor\<lparr>originalFile := Some png1, previewUrl := Some png1\<rparr>),
       mounts := 1\<rparr>"
  "step (SetEditPrompt ''make it blue'')
     (initialApp\<lparr>hasApiKey := True, isCheckingKey := False, activeTab := EDITOR,
       editor := Some (0, initialEditor\<lparr>originalFile := Some png1, previewUrl := Some png1\<rparr>),
       mounts := 1\<rparr>) =
     initialApp\<lparr>hasApiKey := True, isCheckingKey := False, activeTab := EDITOR,
       editor := Some (0, initialEditor\<lparr>originalFile := Some png1, previewUrl := Some png1,
         edit_prompt := ''make it blue''\<rparr>),
       mounts := 1\<rparr>"
  "step Edit
     (initialApp\<lparr>hasApiKey := True, isCheckingKey := False, activeTab := EDITOR,
       editor := Some (0, initialEditor\<lparr>originalFile := Some png1, previewUrl := Some png1,
         edit_prompt := ''make it blue''\<rparr>),
       mounts := 1\<rparr>) =
     initialApp\<lparr>hasApiKey := True, isCheckingKey := False, activeTab := EDITOR,
       editor := Some (0, initialEditor\<lparr>originalFile := Some png1, previewUrl := Some png1,
         edit_prompt := ''make it blue'', isProcessing := True\<rparr>),
       mounts := 1, pending := {#EditCall 0#}\<rparr>"
  by (simp_all add: render_eval initialApp_def initialEditor_def Editor_handleFileSelect_def
      png1_def editEnabled_def handleEdit_call_def trim_def isSpace_def)

lemma run_editStarted_state:
  "run editStarted initialApp =
     initialApp\<lparr>hasApiKey := True, isCheckingKey := False, activeTab := EDITOR,
       editor := Some (0, initialEditor\<lparr>originalFile := Some png1, previewUrl := Some png1,
         edit_prompt := ''make it blue'', isProcessing := True\<rparr>),
       mounts := 1, pending := {#EditCall 0#}\<rparr>"
  unfolding editStarted_def run_Cons run_Nil editor_steps ..

lemma run_editStarted:
  "editor (run editStarted initialApp) =
     Some (0, initialEditor\<lparr>originalFile := Some png1, previewUrl := Some png1,
                edit_prompt := ''make it blue'', isProcessing := True\<rparr>)"
  "pending (run editStarted initialApp) = {#EditCall 0#}"
  unfolding run_editStarted_state by (simp_all add: initialApp_def)

theorem one_call_per_mounted_trigger_witness:
  "AnalyzeCall \<in># pending (run analysisStarted initialApp)
   \<and> fileUpload (run analysisStarted initialApp) = None
   \<and> (\<exists>g. generator (run twoGenerations initialApp) = Some (1, g)
        \<and> GenerateCall 1 \<in># pending (run twoGenerations initialApp)
        \<and> count (pending (run twoGenerations initialApp)) (GenerateCall 1) \<le> 1
        \<and> \<not> generateEnabled g)
   \<and> (\<exists>e. editor (run editStarted initialApp) = Some (0, e)
        \<and> EditCall 0 \<in># pending (run editStarted initialApp)
        \<and> count (pending (run editStarted initialApp)) (EditCall 0) \<le> 1
        \<and> \<not> editEnabled e)
   \<and> pending (step (GenerationSettled 0 (Inl (Error ''fetch failed''))) (run twoGenerations initialApp))
        \<subseteq># pending (run twoGenerations initialApp)
   \<and> size (pending (step Generate (run backOnGenerator initialApp)))
        \<le> Suc (size (pending (run backOnGenerator initialApp)))"
proof -
  let ?g = "initialGenerator\<lparr>gen_prompt := ''a blue kite'', isGenerating := True\<rparr>"
  let ?e = "initialEditor\<lparr>originalFile := Some png1, previewUrl := Some png1,
                edit_prompt := ''make it blue'', isProcessing := True\<rparr>"
  let ?s = "run twoGenerations initialApp"
  note t = one_call_per_mounted_trigger [where evs = twoGenerations
      and ev = "GenerationSettled 0 (Inl (Error ''fetch failed''))" and s = ?s]
  note u = one_call_per_mounted_trigger [where evs = twoGenerations and ev = Generate
      and s = "run backOnGenerator initialApp"]
  note v = one_call_per_mounted_trigger [where evs = analysisStarted and ev = Generate
      and s = initialApp]
  note w = one_call_per_mounted_trigger [where evs = editStarted and ev = Generate
      and s = initialApp]
  have a: "AnalyzeCall \<in># pending (run analysisStarted initialApp)"
    by (simp add: run_analysisStarted)
  have "fileUpload (run analysisStarted initialApp) = None"
    by (rule v [THEN conjunct2, THEN conjunct1, THEN mp, OF a])
  moreover
  have m: "generator ?s = Some (1, ?g)" by (rule run_twoGenerations)
  have i: "GenerateCall 1 \<in># pending ?s" by (simp add: run_twoGenerations)
  note gen = t [THEN conjunct2, THEN conjunct2, THEN conjunct1, THEN spec, THEN spec, THEN mp, OF m]
  have "count (pending ?s) (GenerateCall 1) \<le> 1" by (rule gen [THEN conjunct1])
  moreover have "\<not> generateEnabled ?g" by (rule gen [THEN conjunct2, THEN mp, OF i])
  moreover
  have n: "editor (run editStarted initialApp) = Some (0, ?e)" by (rule run_editStarted)
  have j: "EditCall 0 \<in># pending (run editStarted initialApp)" by (simp add: run_editStarted)
  note ed = w [THEN conjunct2, THEN conjunct2, THEN conjunct2, THEN conjunct1, THEN spec, THEN spec,
      THEN mp, OF n]
  have "count (pending (run editStarted initialApp)) (EditCall 0) \<le> 1" by (rule ed [THEN conjunct1])
  moreover have "\<not> editEnabled ?e" by (rule ed [THEN conjunct2, THEN mp, OF j])
  moreover have "pending (step (GenerationSettled 0 (Inl (Error ''fetch failed''))) ?s) \<subseteq># pending ?s"
    using t [THEN conjunct2, THEN conjunct2, THEN conjunct2, THEN conjunct2, THEN conjunct1]
    by simp
  moreover have "size (pending (step Generate (run backOnGenerator initialApp)))
        \<le> Suc (size (pending (run backOnGenerator initialApp)))"
    using u [THEN conjunct2, THEN conjunct2, THEN conjunct2, THEN conjunct2, THEN conjunct2]
    by simp
  ultimately show ?thesis using a m i n j
    by (intro conjI exI [of _ ?g] exI [of _ ?e]) simp_all
qed


end
